theory Spec2Isabelle
  imports Complex_Main
begin

section \<open>The decrypting audio decoder of media/filters/decrypting_audio_decoder.cc\<close>

text \<open>
  The decoder is a C++ object whose methods run on one task runner. Each method is a
  function from the object's fields to either an error or the updated fields. What a
  method does to the outside (running a caller's callback, calling the decryptor,
  posting a task) is appended to the field \<open>effects\<close>, in program order.

  A failed \<^verbatim>\<open>DCHECK\<close> or \<^verbatim>\<open>CHECK\<close>, a call through a null pointer and running a null
  callback end the program: they are the \<open>Inl\<close> results. Field names are the source's
  without the trailing underscore.
\<close>

subsection \<open>Data\<close>

datatype error = DCHECK_failure | CHECK_failure | NULL_dereference | NULL_callback

datatype State =
    kUninitialized | kDecryptorRequested | kPendingDecoderInit | kIdle
  | kPendingDecode | kWaitingForKey | kDecodeFinished | kStopped

datatype PipelineStatus = PIPELINE_OK | PIPELINE_ERROR_DECODE | DECODER_ERROR_NOT_SUPPORTED

text \<open>\<^verbatim>\<open>AudioDecoder::Status\<close>, the first argument of the decode callback.\<close>

datatype Status = kOk | kAborted | kNotEnoughData | kDecodeError

text \<open>\<^verbatim>\<open>Decryptor::Status\<close>, the status of a decryptor response.\<close>

datatype DecryptorStatus = kSuccess | kNoKey | kNeedMoreData | kError

datatype SampleFormat =
    kUnknownSampleFormat | kSampleFormatU8 | kSampleFormatS16 | kSampleFormatS32
  | kSampleFormatF32 | kSampleFormatPlanarS16 | kSampleFormatPlanarF32

datatype ChannelLayout =
    CHANNEL_LAYOUT_NONE | CHANNEL_LAYOUT_UNSUPPORTED | CHANNEL_LAYOUT_MONO
  | CHANNEL_LAYOUT_STEREO | CHANNEL_LAYOUT_OTHER nat

text \<open>
  A \<^verbatim>\<open>base::TimeDelta\<close> in seconds. \<open>None\<close> is the value \<^verbatim>\<open>kNoTimestamp()\<close>.
\<close>

type_synonym TimeDelta = "rat option"

abbreviation kNoTimestamp :: TimeDelta where
  "kNoTimestamp \<equiv> None"

text \<open>
  A callback is named by a number; an empty (null) callback is \<open>None\<close>. A weak pointer
  to the decoder is the generation of the weak pointer factory it was taken from, and
  \<open>None\<close> when it was never assigned.
\<close>

type_synonym Callback = nat

type_synonym WeakPtr = "nat option"

text \<open>
  Modelled from the spec: \<^verbatim>\<open>AudioDecoderConfig\<close> (media/base/audio_decoder_config.h is
  not among the sources). The configuration holds the sample format, the channel layout,
  the sample rate, the encryption flag and the extra codec parameters; the fields are
  the arguments of the \<^verbatim>\<open>config_.Initialize\<close> call in \<^verbatim>\<open>InitializeDecoder\<close>. Whether a
  configuration is valid (\<^verbatim>\<open>IsValidConfig\<close>) is a parameter of \<open>Initialize\<close> below.
\<close>

record AudioDecoderConfig =
  cfg_codec :: nat
  cfg_sample_format :: SampleFormat
  cfg_channel_layout :: ChannelLayout
  cfg_samples_per_second :: int
  cfg_extra_data :: "nat list"
  cfg_is_encrypted :: bool
  cfg_seek_preroll :: rat
  cfg_codec_delay :: rat

definition AudioDecoderConfig_Initialize ::
  "nat \<Rightarrow> SampleFormat \<Rightarrow> ChannelLayout \<Rightarrow> int \<Rightarrow> nat list \<Rightarrow> nat \<Rightarrow> bool \<Rightarrow> bool \<Rightarrow> rat \<Rightarrow> rat
     \<Rightarrow> AudioDecoderConfig" where
  "AudioDecoderConfig_Initialize codec sample_format channel_layout samples_per_second
       extra_data extra_data_size is_encrypted record_stats seek_preroll codec_delay =
     \<lparr>cfg_codec = codec, cfg_sample_format = sample_format,
      cfg_channel_layout = channel_layout, cfg_samples_per_second = samples_per_second,
      cfg_extra_data = take extra_data_size extra_data, cfg_is_encrypted = is_encrypted,
      cfg_seek_preroll = seek_preroll, cfg_codec_delay = codec_delay\<rparr>"

text \<open>The default-constructed configuration the decoder holds before \<open>Initialize\<close>.\<close>

definition default_AudioDecoderConfig :: AudioDecoderConfig where
  "default_AudioDecoderConfig =
     \<lparr>cfg_codec = 0, cfg_sample_format = kUnknownSampleFormat,
      cfg_channel_layout = CHANNEL_LAYOUT_UNSUPPORTED, cfg_samples_per_second = 0,
      cfg_extra_data = [], cfg_is_encrypted = False,
      cfg_seek_preroll = 0, cfg_codec_delay = 0\<rparr>"

text \<open>An encrypted input buffer: the fields of \<^verbatim>\<open>DecoderBuffer\<close> the decoder reads.\<close>

record DecoderBuffer =
  db_end_of_stream :: bool
  db_timestamp :: TimeDelta
  db_data_size :: int
  db_data :: "nat list"

text \<open>A decoded frame batch: the fields of \<^verbatim>\<open>AudioBuffer\<close> the decoder reads and writes.\<close>

record AudioBuffer =
  ab_end_of_stream :: bool
  ab_frame_count :: int
  ab_timestamp :: TimeDelta
  ab_duration :: TimeDelta
  ab_data :: "nat list"

text \<open>
  Modelled from the spec: \<^verbatim>\<open>AudioBuffer::CreateEOSBuffer\<close> (media/base/audio_buffer.cc is
  not among the sources), the end-of-stream frame: a sentinel with no payload.
\<close>

definition CreateEOSBuffer :: AudioBuffer where
  "CreateEOSBuffer =
     \<lparr>ab_end_of_stream = True, ab_frame_count = 0, ab_timestamp = kNoTimestamp,
      ab_duration = kNoTimestamp, ab_data = []\<rparr>"

subsection \<open>The timestamp helper\<close>

text \<open>
  Modelled from the spec: \<^verbatim>\<open>AudioTimestampHelper\<close> (media/base/audio_timestamp_helper.cc
  is not among the sources). The spec's timestamp reconstructor derives timestamps and
  durations from a sample rate and a running frame count: the running timestamp is the
  base timestamp plus the frames counted so far over the sample rate, the duration of
  \<open>n\<close> frames is \<open>n / sample_rate\<close>, and setting the base restarts the count. Times are
  exact rationals (seconds); before the base is seeded the running timestamp is
  \<^verbatim>\<open>kNoTimestamp()\<close>.
\<close>

record AudioTimestampHelper =
  ath_samples_per_second :: int
  ath_base_timestamp :: TimeDelta
  ath_frame_count :: int

definition new_AudioTimestampHelper :: "int \<Rightarrow> AudioTimestampHelper" where
  "new_AudioTimestampHelper samples_per_second =
     \<lparr>ath_samples_per_second = samples_per_second, ath_base_timestamp = kNoTimestamp,
      ath_frame_count = 0\<rparr>"

definition SetBaseTimestamp :: "TimeDelta \<Rightarrow> AudioTimestampHelper \<Rightarrow> AudioTimestampHelper" where
  "SetBaseTimestamp t h = h\<lparr>ath_base_timestamp := t, ath_frame_count := 0\<rparr>"

definition GetFrameDuration :: "AudioTimestampHelper \<Rightarrow> int \<Rightarrow> TimeDelta" where
  "GetFrameDuration h n = Some (of_int n / of_int (ath_samples_per_second h))"

definition GetTimestamp :: "AudioTimestampHelper \<Rightarrow> TimeDelta" where
  "GetTimestamp h =
     (case ath_base_timestamp h of
        None \<Rightarrow> kNoTimestamp
      | Some b \<Rightarrow> Some (b + of_int (ath_frame_count h) / of_int (ath_samples_per_second h)))"

definition AddFrames :: "AudioTimestampHelper \<Rightarrow> int \<Rightarrow> AudioTimestampHelper" where
  "AddFrames h n = h\<lparr>ath_frame_count := ath_frame_count h + n\<rparr>"

subsection \<open>Effects and the decoder object\<close>

text \<open>
  The argument given to the set-decryptor-ready callback: the empty
  \<^verbatim>\<open>DecryptorReadyCB()\<close>, or \<^verbatim>\<open>SetDecryptor\<close> bound to a weak pointer.
\<close>

datatype DecryptorReadyCB = NullDecryptorReadyCB | Bind_SetDecryptor WeakPtr

text \<open>
  What the decoder does to its collaborators. Every continuation handed to the decryptor
  is bound to \<^verbatim>\<open>weak_this_\<close>; the effect records that weak pointer.
\<close>

datatype Effect =
    InitCB_Run Callback PipelineStatus
  | DecodeCB_Run Callback Status "AudioBuffer option"
  | ResetCB_Run Callback
  | SetDecryptorReadyCB_Run Callback DecryptorReadyCB
  | Decryptor_DeinitializeDecoder
  | Decryptor_InitializeAudioDecoder AudioDecoderConfig WeakPtr
  | Decryptor_DecryptAndDecodeAudio DecoderBuffer int WeakPtr
  | Decryptor_ResetDecoder
  | Decryptor_RegisterNewKeyCB WeakPtr
  | PostTask Callback

record DecryptingAudioDecoder =
  state :: State
  init_cb :: "Callback option"
  decode_cb :: "Callback option"
  reset_cb :: "Callback option"
  set_decryptor_ready_cb :: "Callback option"
  decryptor :: "nat option"
  config :: AudioDecoderConfig
  pending_buffer_to_decode :: "DecoderBuffer option"
  key_added_while_decode_pending :: bool
  queued_audio_frames :: "AudioBuffer list"
  bits_per_channel :: int
  channel_layout :: ChannelLayout
  samples_per_second :: int
  timestamp_helper :: "AudioTimestampHelper option"
  weak_factory :: nat
  weak_this :: WeakPtr
  effects :: "Effect list"

definition kSupportedBitsPerChannel :: int where
  "kSupportedBitsPerChannel = 16"

text \<open>
  \<^verbatim>\<open>IsOutOfSync\<close> compares two times in whole milliseconds. \<^verbatim>\<open>EnqueueFrames\<close> uses it
  only to decide whether to write a log line.
\<close>

definition IsOutOfSync :: "int \<Rightarrow> int \<Rightarrow> bool" where
  "IsOutOfSync timestamp_1_ms timestamp_2_ms = (\<bar>timestamp_1_ms - timestamp_2_ms\<bar> > 100)"

text \<open>The constructor: the member initialiser list, everything else default-constructed.\<close>

definition constructor :: "Callback option \<Rightarrow> DecryptingAudioDecoder" where
  "constructor ready_cb =
     \<lparr>state = kUninitialized, init_cb = None, decode_cb = None, reset_cb = None,
      set_decryptor_ready_cb = ready_cb, decryptor = None,
      config = default_AudioDecoderConfig, pending_buffer_to_decode = None,
      key_added_while_decode_pending = False, queued_audio_frames = [],
      bits_per_channel = 0, channel_layout = CHANNEL_LAYOUT_NONE, samples_per_second = 0,
      timestamp_helper = None, weak_factory = 0, weak_this = None, effects = []\<rparr>"

definition emit :: "Effect \<Rightarrow> DecryptingAudioDecoder \<Rightarrow> DecryptingAudioDecoder" where
  "emit e s = s\<lparr>effects := effects s @ [e]\<rparr>"

text \<open>
  \<^verbatim>\<open>base::ResetAndReturn(&cb).Run(...)\<close>: the member is emptied and the callback it held
  is run, once. \<^verbatim>\<open>BindToCurrentLoop\<close> keeps the identity of the callback it wraps.
\<close>

definition ResetAndReturn_init_cb ::
  "PipelineStatus \<Rightarrow> DecryptingAudioDecoder \<Rightarrow> error + DecryptingAudioDecoder" where
  "ResetAndReturn_init_cb status s =
     (case init_cb s of
        None \<Rightarrow> Inl NULL_callback
      | Some cb \<Rightarrow> Inr (emit (InitCB_Run cb status) (s\<lparr>init_cb := None\<rparr>)))"

definition ResetAndReturn_decode_cb ::
  "Status \<Rightarrow> AudioBuffer option \<Rightarrow> DecryptingAudioDecoder \<Rightarrow> error + DecryptingAudioDecoder" where
  "ResetAndReturn_decode_cb status frame s =
     (case decode_cb s of
        None \<Rightarrow> Inl NULL_callback
      | Some cb \<Rightarrow> Inr (emit (DecodeCB_Run cb status frame) (s\<lparr>decode_cb := None\<rparr>)))"

definition ResetAndReturn_reset_cb ::
  "DecryptingAudioDecoder \<Rightarrow> error + DecryptingAudioDecoder" where
  "ResetAndReturn_reset_cb s =
     (case reset_cb s of
        None \<Rightarrow> Inl NULL_callback
      | Some cb \<Rightarrow> Inr (emit (ResetCB_Run cb) (s\<lparr>reset_cb := None\<rparr>)))"

text \<open>Sequencing of two steps, the first of which may end the program.\<close>

definition and_then ::
  "error + 'a \<Rightarrow> ('a \<Rightarrow> error + 'b) \<Rightarrow> error + 'b" where
  "and_then m f = (case m of Inl e \<Rightarrow> Inl e | Inr x \<Rightarrow> f x)"

subsection \<open>Private methods\<close>

definition UpdateDecoderConfig :: "DecryptingAudioDecoder \<Rightarrow> DecryptingAudioDecoder" where
  "UpdateDecoderConfig s =
     s\<lparr>bits_per_channel := kSupportedBitsPerChannel,
       channel_layout := cfg_channel_layout (config s),
       samples_per_second := cfg_samples_per_second (config s),
       timestamp_helper :=
         Some (new_AudioTimestampHelper (cfg_samples_per_second (config s)))\<rparr>"

definition InitializeDecoder ::
  "DecryptingAudioDecoder \<Rightarrow> error + DecryptingAudioDecoder" where
  "InitializeDecoder s =
     (let s1 = s\<lparr>config :=
                  AudioDecoderConfig_Initialize (cfg_codec (config s)) kSampleFormatS16
                    (cfg_channel_layout (config s)) (cfg_samples_per_second (config s))
                    (cfg_extra_data (config s)) (length (cfg_extra_data (config s)))
                    (cfg_is_encrypted (config s)) False 0 0\<rparr>;
          s2 = s1\<lparr>state := kPendingDecoderInit\<rparr>
      in case decryptor s2 of
           None \<Rightarrow> Inl NULL_dereference
         | Some d \<Rightarrow>
             Inr (emit (Decryptor_InitializeAudioDecoder (config s2) (weak_this s2)) s2))"

text \<open>The size \<^verbatim>\<open>DecodePendingBuffer\<close> binds into the continuation: 0 for an end-of-stream buffer.\<close>

definition buffer_size_of :: "DecoderBuffer \<Rightarrow> int" where
  "buffer_size_of b = (if \<not> db_end_of_stream b then db_data_size b else 0)"

definition DecodePendingBuffer ::
  "DecryptingAudioDecoder \<Rightarrow> error + DecryptingAudioDecoder" where
  "DecodePendingBuffer s =
     (if state s \<noteq> kPendingDecode then Inl DCHECK_failure
      else case pending_buffer_to_decode s of
             None \<Rightarrow> Inl NULL_dereference
           | Some b \<Rightarrow>
               (let buffer_size = buffer_size_of b
                in case decryptor s of
                     None \<Rightarrow> Inl NULL_dereference
                   | Some d \<Rightarrow>
                       Inr (emit (Decryptor_DecryptAndDecodeAudio b buffer_size (weak_this s)) s)))"

definition DoReset :: "DecryptingAudioDecoder \<Rightarrow> error + DecryptingAudioDecoder" where
  "DoReset s =
     (if init_cb s \<noteq> None then Inl DCHECK_failure
      else if decode_cb s \<noteq> None then Inl DCHECK_failure
      else case timestamp_helper s of
             None \<Rightarrow> Inl NULL_dereference
           | Some h \<Rightarrow>
               ResetAndReturn_reset_cb
                 (s\<lparr>timestamp_helper := Some (SetBaseTimestamp kNoTimestamp h),
                    state := kIdle\<rparr>))"

text \<open>
  The loop of \<^verbatim>\<open>EnqueueFrames\<close> over the queued frames, front to back, threading the
  timestamp helper. Each frame of a response is a buffer of its own.
\<close>

fun EnqueueFrames_loop ::
  "AudioBuffer list \<Rightarrow> AudioTimestampHelper option
     \<Rightarrow> error + (AudioBuffer list \<times> AudioTimestampHelper option)" where
  "EnqueueFrames_loop [] th = Inr ([], th)"
| "EnqueueFrames_loop (frame # rest) th =
     (if ab_end_of_stream frame then Inl DCHECK_failure
      else if \<not> ab_frame_count frame > 0 then Inl DCHECK_failure
      else case th of
             None \<Rightarrow> Inl NULL_dereference
           | Some h \<Rightarrow>
               (let current_time = GetTimestamp h;
                    frame1 = frame\<lparr>ab_timestamp := current_time,
                                   ab_duration := GetFrameDuration h (ab_frame_count frame)\<rparr>;
                    h1 = AddFrames h (ab_frame_count frame)
                in case EnqueueFrames_loop rest (Some h1) of
                     Inl e \<Rightarrow> Inl e
                   | Inr (rest1, th1) \<Rightarrow> Inr (frame1 # rest1, th1)))"

definition EnqueueFrames ::
  "AudioBuffer list \<Rightarrow> DecryptingAudioDecoder \<Rightarrow> error + DecryptingAudioDecoder" where
  "EnqueueFrames frames s =
     (case EnqueueFrames_loop frames (timestamp_helper s) of
        Inl e \<Rightarrow> Inl e
      | Inr (queued, th) \<Rightarrow>
          Inr (s\<lparr>queued_audio_frames := queued, timestamp_helper := th\<rparr>))"

subsection \<open>Public methods\<close>

definition Initialize ::
  "(AudioDecoderConfig \<Rightarrow> bool) \<Rightarrow> AudioDecoderConfig \<Rightarrow> Callback
     \<Rightarrow> DecryptingAudioDecoder \<Rightarrow> error + DecryptingAudioDecoder" where
  "Initialize IsValidConfig cfg status_cb s =
     (if decode_cb s \<noteq> None then Inl DCHECK_failure
      else if reset_cb s \<noteq> None then Inl DCHECK_failure
      else
        let s1 = s\<lparr>weak_this := Some (weak_factory s), init_cb := Some status_cb\<rparr>
        in if \<not> IsValidConfig cfg then ResetAndReturn_init_cb PIPELINE_ERROR_DECODE s1
           else if \<not> cfg_is_encrypted cfg
             then ResetAndReturn_init_cb DECODER_ERROR_NOT_SUPPORTED s1
           else
             let s2 = s1\<lparr>config := cfg\<rparr>
             in if state s2 = kUninitialized then
                  (case set_decryptor_ready_cb s2 of
                     None \<Rightarrow> Inl NULL_callback
                   | Some ready \<Rightarrow>
                       Inr (emit (SetDecryptorReadyCB_Run ready (Bind_SetDecryptor (weak_this s2)))
                              (s2\<lparr>state := kDecryptorRequested\<rparr>)))
                else
                  (case decryptor s2 of
                     None \<Rightarrow> Inl NULL_dereference
                   | Some d \<Rightarrow> InitializeDecoder (emit Decryptor_DeinitializeDecoder s2)))"

definition Decode ::
  "DecoderBuffer option \<Rightarrow> Callback option
     \<Rightarrow> DecryptingAudioDecoder \<Rightarrow> error + DecryptingAudioDecoder" where
  "Decode buffer cb s =
     (if \<not> (state s = kIdle \<or> state s = kDecodeFinished) then Inl DCHECK_failure
      else if cb = None then Inl DCHECK_failure
      else if decode_cb s \<noteq> None then Inl CHECK_failure
      else
        let s1 = s\<lparr>decode_cb := cb\<rparr>
        in if state s1 = kDecodeFinished
             then ResetAndReturn_decode_cb kOk (Some CreateEOSBuffer) s1
           else if queued_audio_frames s1 \<noteq> [] then
             (if buffer \<noteq> None then Inl DCHECK_failure
              else and_then
                     (ResetAndReturn_decode_cb kOk (Some (hd (queued_audio_frames s1))) s1)
                     (\<lambda>s2. Inr (s2\<lparr>queued_audio_frames := tl (queued_audio_frames s2)\<rparr>)))
           else
             (case timestamp_helper s1 of
                None \<Rightarrow> Inl NULL_dereference
              | Some h \<Rightarrow>
                  if ath_base_timestamp h = kNoTimestamp then
                    (case buffer of
                       None \<Rightarrow> Inl NULL_dereference
                     | Some b \<Rightarrow>
                         let s2 = (if \<not> db_end_of_stream b
                                   then s1\<lparr>timestamp_helper :=
                                             Some (SetBaseTimestamp (db_timestamp b) h)\<rparr>
                                   else s1)
                         in DecodePendingBuffer
                              (s2\<lparr>pending_buffer_to_decode := buffer,
                                  state := kPendingDecode\<rparr>))
                  else
                    DecodePendingBuffer
                      (s1\<lparr>pending_buffer_to_decode := buffer, state := kPendingDecode\<rparr>)))"

definition GetDecodeOutput ::
  "DecryptingAudioDecoder \<Rightarrow> AudioBuffer option \<times> DecryptingAudioDecoder" where
  "GetDecodeOutput s =
     (if queued_audio_frames s = [] then (None, s)
      else (Some (hd (queued_audio_frames s)),
            s\<lparr>queued_audio_frames := tl (queued_audio_frames s)\<rparr>))"

definition Reset ::
  "Callback \<Rightarrow> DecryptingAudioDecoder \<Rightarrow> error + DecryptingAudioDecoder" where
  "Reset closure s =
     (if \<not> (state s = kIdle \<or> state s = kPendingDecode \<or> state s = kWaitingForKey
             \<or> state s = kDecodeFinished) then Inl DCHECK_failure
      else if init_cb s \<noteq> None then Inl DCHECK_failure
      else if reset_cb s \<noteq> None then Inl DCHECK_failure
      else
        let s1 = s\<lparr>reset_cb := Some closure\<rparr>
        in case decryptor s1 of
             None \<Rightarrow> Inl NULL_dereference
           | Some d \<Rightarrow>
               (let s2 = emit Decryptor_ResetDecoder s1
                in if state s2 = kPendingDecode then
                     (if decode_cb s2 = None then Inl DCHECK_failure else Inr s2)
                   else
                     and_then
                       (if state s2 = kWaitingForKey then
                          (if decode_cb s2 = None then Inl DCHECK_failure
                           else ResetAndReturn_decode_cb kAborted None
                                  (s2\<lparr>pending_buffer_to_decode := None\<rparr>))
                        else Inr s2)
                       (\<lambda>s3. if decode_cb s3 \<noteq> None then Inl DCHECK_failure
                             else DoReset s3)))"

definition Stop ::
  "Callback \<Rightarrow> DecryptingAudioDecoder \<Rightarrow> error + DecryptingAudioDecoder" where
  "Stop closure s =
     (let s1 = s\<lparr>weak_factory := weak_factory s + 1\<rparr>;
          s2 = (case decryptor s1 of
                  None \<Rightarrow> s1
                | Some d \<Rightarrow> (emit Decryptor_DeinitializeDecoder s1)\<lparr>decryptor := None\<rparr>);
          s3 = (case set_decryptor_ready_cb s2 of
                  None \<Rightarrow> s2
                | Some ready \<Rightarrow>
                    emit (SetDecryptorReadyCB_Run ready NullDecryptorReadyCB)
                      (s2\<lparr>set_decryptor_ready_cb := None\<rparr>));
          s4 = s3\<lparr>pending_buffer_to_decode := None\<rparr>;
          s5 = (case init_cb s4 of
                  None \<Rightarrow> s4
                | Some cb \<Rightarrow>
                    emit (InitCB_Run cb DECODER_ERROR_NOT_SUPPORTED) (s4\<lparr>init_cb := None\<rparr>));
          s6 = (case decode_cb s5 of
                  None \<Rightarrow> s5
                | Some cb \<Rightarrow> emit (DecodeCB_Run cb kAborted None) (s5\<lparr>decode_cb := None\<rparr>));
          s7 = (case reset_cb s6 of
                  None \<Rightarrow> s6
                | Some cb \<Rightarrow> emit (ResetCB_Run cb) (s6\<lparr>reset_cb := None\<rparr>))
      in Inr (emit (PostTask closure) (s7\<lparr>state := kStopped\<rparr>)))"

subsection \<open>Continuations run by the decryptor and the task runner\<close>

definition SetDecryptor ::
  "nat option \<Rightarrow> DecryptingAudioDecoder \<Rightarrow> error + DecryptingAudioDecoder" where
  "SetDecryptor d s =
     (if state s \<noteq> kDecryptorRequested then Inl DCHECK_failure
      else if init_cb s = None then Inl DCHECK_failure
      else if set_decryptor_ready_cb s = None then Inl DCHECK_failure
      else
        let s1 = s\<lparr>set_decryptor_ready_cb := None\<rparr>
        in if d = None then
             and_then (ResetAndReturn_init_cb DECODER_ERROR_NOT_SUPPORTED s1)
               (\<lambda>s2. Inr (s2\<lparr>state := kStopped\<rparr>))
           else InitializeDecoder (s1\<lparr>decryptor := d\<rparr>))"

definition FinishInitialization ::
  "bool \<Rightarrow> DecryptingAudioDecoder \<Rightarrow> error + DecryptingAudioDecoder" where
  "FinishInitialization success s =
     (if state s \<noteq> kPendingDecoderInit then Inl DCHECK_failure
      else if init_cb s = None then Inl DCHECK_failure
      else if reset_cb s \<noteq> None then Inl DCHECK_failure
      else if decode_cb s \<noteq> None then Inl DCHECK_failure
      else if \<not> success then
        and_then (ResetAndReturn_init_cb DECODER_ERROR_NOT_SUPPORTED s)
          (\<lambda>s1. Inr (s1\<lparr>state := kStopped\<rparr>))
      else
        let s1 = UpdateDecoderConfig s
        in case decryptor s1 of
             None \<Rightarrow> Inl NULL_dereference
           | Some d \<Rightarrow>
               ResetAndReturn_init_cb PIPELINE_OK
                 ((emit (Decryptor_RegisterNewKeyCB (weak_this s1)) s1)\<lparr>state := kIdle\<rparr>))"

definition DeliverFrame ::
  "int \<Rightarrow> DecryptorStatus \<Rightarrow> AudioBuffer list
     \<Rightarrow> DecryptingAudioDecoder \<Rightarrow> error + DecryptingAudioDecoder" where
  "DeliverFrame buffer_size status frames s =
     (if state s \<noteq> kPendingDecode then Inl DCHECK_failure
      else if decode_cb s = None then Inl DCHECK_failure
      else if pending_buffer_to_decode s = None then Inl DCHECK_failure
      else if queued_audio_frames s \<noteq> [] then Inl DCHECK_failure
      else
        let need_to_try_again_if_nokey_is_returned = key_added_while_decode_pending s;
            s1 = s\<lparr>key_added_while_decode_pending := False\<rparr>;
            scoped_pending_buffer_to_decode = pending_buffer_to_decode s1;
            s2 = s1\<lparr>pending_buffer_to_decode := None\<rparr>
        in if reset_cb s2 \<noteq> None then
             and_then (ResetAndReturn_decode_cb kAborted None s2) DoReset
           else if (status = kSuccess) \<noteq> (frames \<noteq> []) then Inl DCHECK_failure
           else if status = kError then
             ResetAndReturn_decode_cb kDecodeError None (s2\<lparr>state := kDecodeFinished\<rparr>)
           else if status = kNoKey then
             (let s3 = s2\<lparr>pending_buffer_to_decode := scoped_pending_buffer_to_decode\<rparr>
              in if need_to_try_again_if_nokey_is_returned then DecodePendingBuffer s3
                 else Inr (s3\<lparr>state := kWaitingForKey\<rparr>))
           else if status = kNeedMoreData then
             (case scoped_pending_buffer_to_decode of
                None \<Rightarrow> Inl NULL_dereference
              | Some b \<Rightarrow>
                  if db_end_of_stream b then
                    ResetAndReturn_decode_cb kOk (Some CreateEOSBuffer)
                      (s2\<lparr>state := kDecodeFinished\<rparr>)
                  else ResetAndReturn_decode_cb kNotEnoughData None (s2\<lparr>state := kIdle\<rparr>))
           else
             and_then (EnqueueFrames frames s2)
               (\<lambda>s3. and_then
                  (ResetAndReturn_decode_cb kOk (Some (hd (queued_audio_frames s3)))
                     (s3\<lparr>state := kIdle\<rparr>))
                  (\<lambda>s4. Inr (s4\<lparr>queued_audio_frames := tl (queued_audio_frames s4)\<rparr>))))"

definition OnKeyAdded :: "DecryptingAudioDecoder \<Rightarrow> error + DecryptingAudioDecoder" where
  "OnKeyAdded s =
     (if state s = kPendingDecode then Inr (s\<lparr>key_added_while_decode_pending := True\<rparr>)
      else if state s = kWaitingForKey then DecodePendingBuffer (s\<lparr>state := kPendingDecode\<rparr>)
      else Inr s)"

text \<open>
  Modelled from the spec: \<^verbatim>\<open>base::WeakPtrFactory\<close> (base/memory/weak_ptr.h is not among
  the sources). A continuation bound to a weak pointer carries a cancellation token and
  is dropped silently when the token no longer matches: the weak pointer is valid while
  its generation is the factory's current one, and \<^verbatim>\<open>InvalidateWeakPtrs\<close> starts a new
  generation.
\<close>

definition via_weak_ptr ::
  "WeakPtr \<Rightarrow> (DecryptingAudioDecoder \<Rightarrow> error + DecryptingAudioDecoder)
     \<Rightarrow> DecryptingAudioDecoder \<Rightarrow> error + DecryptingAudioDecoder" where
  "via_weak_ptr w f s = (if w = Some (weak_factory s) then f s else Inr s)"

subsection \<open>Sequences of calls\<close>

text \<open>
  Everything that can happen to the decoder: a call of a public method by the pipeline,
  or a continuation bound to a weak pointer being run by the task runner.
\<close>

datatype Call =
    Call_Initialize AudioDecoderConfig Callback
  | Call_Decode "DecoderBuffer option" "Callback option"
  | Call_GetDecodeOutput
  | Call_Reset Callback
  | Call_Stop Callback
  | Run_SetDecryptor WeakPtr "nat option"
  | Run_FinishInitialization WeakPtr bool
  | Run_DeliverFrame WeakPtr int DecryptorStatus "AudioBuffer list"
  | Run_OnKeyAdded WeakPtr

fun step ::
  "(AudioDecoderConfig \<Rightarrow> bool) \<Rightarrow> Call \<Rightarrow> DecryptingAudioDecoder
     \<Rightarrow> error + DecryptingAudioDecoder" where
  "step V (Call_Initialize cfg cb) s = Initialize V cfg cb s"
| "step V (Call_Decode buffer cb) s = Decode buffer cb s"
| "step V Call_GetDecodeOutput s = Inr (snd (GetDecodeOutput s))"
| "step V (Call_Reset closure) s = Reset closure s"
| "step V (Call_Stop closure) s = Stop closure s"
| "step V (Run_SetDecryptor w d) s = via_weak_ptr w (SetDecryptor d) s"
| "step V (Run_FinishInitialization w success) s =
     via_weak_ptr w (FinishInitialization success) s"
| "step V (Run_DeliverFrame w buffer_size status frames) s =
     via_weak_ptr w (DeliverFrame buffer_size status frames) s"
| "step V (Run_OnKeyAdded w) s = via_weak_ptr w OnKeyAdded s"

fun run ::
  "(AudioDecoderConfig \<Rightarrow> bool) \<Rightarrow> Call list \<Rightarrow> DecryptingAudioDecoder
     \<Rightarrow> error + DecryptingAudioDecoder" where
  "run V [] s = Inr s"
| "run V (c # cs) s = (case step V c s of Inl e \<Rightarrow> Inl e | Inr s1 \<Rightarrow> run V cs s1)"

subsection \<open>Notions used to state the properties\<close>

text \<open>\<open>n\<close> calls of \<open>GetDecodeOutput\<close> in a row, with what each returned.\<close>

fun GetDecodeOutput_times ::
  "nat \<Rightarrow> DecryptingAudioDecoder \<Rightarrow> AudioBuffer option list \<times> DecryptingAudioDecoder" where
  "GetDecodeOutput_times 0 s = ([], s)"
| "GetDecodeOutput_times (Suc n) s =
     (case GetDecodeOutput s of
        (out, s1) \<Rightarrow> (case GetDecodeOutput_times n s1 of (outs, s2) \<Rightarrow> (out # outs, s2)))"

text \<open>
  The decode callback \<open>cb\<close>: how often it was run so far, whether the decoder still holds
  it, and how often a call sequence passes it to \<open>Decode\<close>.
\<close>

fun is_DecodeCB_Run :: "Callback \<Rightarrow> Effect \<Rightarrow> bool" where
  "is_DecodeCB_Run cb (DecodeCB_Run c status frame) = (c = cb)"
| "is_DecodeCB_Run cb e = False"

definition decode_cb_runs :: "Callback \<Rightarrow> DecryptingAudioDecoder \<Rightarrow> nat" where
  "decode_cb_runs cb s = length (filter (is_DecodeCB_Run cb) (effects s))"

definition decode_cb_pending :: "Callback \<Rightarrow> DecryptingAudioDecoder \<Rightarrow> nat" where
  "decode_cb_pending cb s = (if decode_cb s = Some cb then 1 else 0)"

definition decode_cb_account :: "Callback \<Rightarrow> DecryptingAudioDecoder \<Rightarrow> nat" where
  "decode_cb_account cb s = decode_cb_runs cb s + decode_cb_pending cb s"

fun is_Decode_call :: "Callback \<Rightarrow> Call \<Rightarrow> bool" where
  "is_Decode_call cb (Call_Decode buffer c) = (c = Some cb)"
| "is_Decode_call cb c = False"

definition decode_calls :: "Callback \<Rightarrow> Call list \<Rightarrow> nat" where
  "decode_calls cb cs = length (filter (is_Decode_call cb) cs)"

text \<open>
  What holds of the fields in every state the decoder can reach: which pointers and
  callbacks are set in which state.
\<close>

definition fields_inv :: "DecryptingAudioDecoder \<Rightarrow> bool" where
  "fields_inv s \<longleftrightarrow>
     (state s \<in> {kPendingDecoderInit, kIdle, kPendingDecode, kWaitingForKey, kDecodeFinished}
        \<longrightarrow> decryptor s \<noteq> None) \<and>
     (state s \<in> {kIdle, kPendingDecode, kWaitingForKey, kDecodeFinished}
        \<longrightarrow> timestamp_helper s \<noteq> None \<and> init_cb s = None) \<and>
     (state s \<in> {kPendingDecode, kWaitingForKey}
        \<longrightarrow> decode_cb s \<noteq> None \<and> pending_buffer_to_decode s \<noteq> None) \<and>
     (state s \<in> {kPendingDecode, kWaitingForKey, kDecodeFinished}
        \<longrightarrow> queued_audio_frames s = []) \<and>
     (state s \<in> {kIdle, kDecodeFinished} \<longrightarrow> decode_cb s = None) \<and>
     (state s \<in> {kIdle, kWaitingForKey, kDecodeFinished} \<longrightarrow> reset_cb s = None)"

text \<open>
  A concrete validity test, configuration, buffer and frame, on which the theorems are
  instantiated.
\<close>

definition example_IsValidConfig :: "AudioDecoderConfig \<Rightarrow> bool" where
  "example_IsValidConfig cfg = (0 < cfg_samples_per_second cfg)"

definition example_config :: AudioDecoderConfig where
  "example_config =
     \<lparr>cfg_codec = 1, cfg_sample_format = kSampleFormatF32,
      cfg_channel_layout = CHANNEL_LAYOUT_STEREO, cfg_samples_per_second = 48000,
      cfg_extra_data = [], cfg_is_encrypted = True,
      cfg_seek_preroll = 0, cfg_codec_delay = 0\<rparr>"

definition example_buffer :: DecoderBuffer where
  "example_buffer =
     \<lparr>db_end_of_stream = False, db_timestamp = Some 0, db_data_size = 4, db_data = [1, 2, 3, 4]\<rparr>"

definition example_frame :: AudioBuffer where
  "example_frame =
     \<lparr>ab_end_of_stream = False, ab_frame_count = 100, ab_timestamp = Some 5,
      ab_duration = Some 1, ab_data = []\<rparr>"

text \<open>A pipeline that initializes the decoder and starts one decode.\<close>

definition example_calls :: "Call list" where
  "example_calls =
     [Call_Initialize example_config 1, Run_SetDecryptor (Some 0) (Some 7),
      Run_FinishInitialization (Some 0) True, Call_Decode (Some example_buffer) (Some 2)]"

definition example_eos_buffer :: DecoderBuffer where
  "example_eos_buffer =
     \<lparr>db_end_of_stream = True, db_timestamp = kNoTimestamp, db_data_size = 0, db_data = []\<rparr>"

text \<open>A pipeline that initializes the decoder and passes it the end-of-stream buffer.\<close>

definition example_eos_calls :: "Call list" where
  "example_eos_calls =
     [Call_Initialize example_config 1, Run_SetDecryptor (Some 0) (Some 7),
      Run_FinishInitialization (Some 0) True, Call_Decode (Some example_eos_buffer) (Some 2)]"

text \<open>The effects of \<open>Stop\<close>, in the order of the method's statements.\<close>

definition Stop_effects :: "Callback \<Rightarrow> DecryptingAudioDecoder \<Rightarrow> Effect list" where
  "Stop_effects closure s =
     (case decryptor s of None \<Rightarrow> [] | Some d \<Rightarrow> [Decryptor_DeinitializeDecoder]) @
     (case set_decryptor_ready_cb s of
        None \<Rightarrow> [] | Some ready \<Rightarrow> [SetDecryptorReadyCB_Run ready NullDecryptorReadyCB]) @
     (case init_cb s of None \<Rightarrow> [] | Some cb \<Rightarrow> [InitCB_Run cb DECODER_ERROR_NOT_SUPPORTED]) @
     (case decode_cb s of None \<Rightarrow> [] | Some cb \<Rightarrow> [DecodeCB_Run cb kAborted None]) @
     (case reset_cb s of None \<Rightarrow> [] | Some cb \<Rightarrow> [ResetCB_Run cb]) @
     [PostTask closure]"

text \<open>
  For the forced sample format: the effect that initializes the decryptor's decoder
  carries the format S16; the configuration the pipeline supplied last is the one of the
  last \<open>Initialize\<close> call that passed the two checks.
\<close>

fun forces_S16 :: "Effect \<Rightarrow> bool" where
  "forces_S16 (Decryptor_InitializeAudioDecoder cfg w) = (cfg_sample_format cfg = kSampleFormatS16)"
| "forces_S16 e = True"

fun supplied_config ::
  "(AudioDecoderConfig \<Rightarrow> bool) \<Rightarrow> Call list \<Rightarrow> AudioDecoderConfig \<Rightarrow> AudioDecoderConfig" where
  "supplied_config V [] c0 = c0"
| "supplied_config V (Call_Initialize cfg cb # cs) c0 =
     supplied_config V cs (if V cfg \<and> cfg_is_encrypted cfg then cfg else c0)"
| "supplied_config V (c # cs) c0 = supplied_config V cs c0"

definition same_layout_and_rate :: "AudioDecoderConfig \<Rightarrow> AudioDecoderConfig \<Rightarrow> bool" where
  "same_layout_and_rate a b \<longleftrightarrow>
     cfg_channel_layout a = cfg_channel_layout b \<and>
     cfg_samples_per_second a = cfg_samples_per_second b"

definition reports_config :: "DecryptingAudioDecoder \<Rightarrow> bool" where
  "reports_config s \<longleftrightarrow>
     (state s \<in> {kIdle, kPendingDecode, kWaitingForKey, kDecodeFinished} \<longrightarrow>
        bits_per_channel s = 16 \<and> channel_layout s = cfg_channel_layout (config s) \<and>
        samples_per_second s = cfg_samples_per_second (config s))"

definition config_inv :: "DecryptingAudioDecoder \<Rightarrow> bool" where
  "config_inv s \<longleftrightarrow> list_all forces_S16 (effects s) \<and> reports_config s"

text \<open>
  For the cancellation by \<open>Stop\<close>: the weak pointer a continuation was bound to, and what
  holds of all weak pointers handed out: they were taken from a generation of the factory
  up to the current one.
\<close>

fun weak_ptr_of :: "Effect \<Rightarrow> WeakPtr" where
  "weak_ptr_of (SetDecryptorReadyCB_Run ready (Bind_SetDecryptor w)) = w"
| "weak_ptr_of (Decryptor_InitializeAudioDecoder cfg w) = w"
| "weak_ptr_of (Decryptor_DecryptAndDecodeAudio b n w) = w"
| "weak_ptr_of (Decryptor_RegisterNewKeyCB w) = w"
| "weak_ptr_of e = None"

definition taken_by :: "nat \<Rightarrow> WeakPtr \<Rightarrow> bool" where
  "taken_by g w = (case w of None \<Rightarrow> True | Some k \<Rightarrow> k \<le> g)"

definition weak_inv :: "DecryptingAudioDecoder \<Rightarrow> bool" where
  "weak_inv s \<longleftrightarrow>
     taken_by (weak_factory s) (weak_this s) \<and>
     list_all (\<lambda>e. taken_by (weak_factory s) (weak_ptr_of e)) (effects s)"

text \<open>A pipeline that stops the decoder while a decode and a reset are pending.\<close>

definition example_stop_calls :: "Call list" where
  "example_stop_calls = example_calls @ [Call_Reset 5]"

text \<open>
  For the single decrypt request in flight: how many requests the decoder has submitted,
  and how many responses a call sequence has delivered to it (a response bound to a weak
  pointer that is no longer valid is dropped and does not count).
\<close>

fun is_submission :: "Effect \<Rightarrow> bool" where
  "is_submission (Decryptor_DecryptAndDecodeAudio b n w) = True"
| "is_submission e = False"

definition submitted :: "DecryptingAudioDecoder \<Rightarrow> nat" where
  "submitted s = length (filter is_submission (effects s))"

fun is_response :: "Call \<Rightarrow> DecryptingAudioDecoder \<Rightarrow> bool" where
  "is_response (Run_DeliverFrame w n st frames) s = (w = Some (weak_factory s))"
| "is_response c s = False"

fun responses ::
  "(AudioDecoderConfig \<Rightarrow> bool) \<Rightarrow> Call list \<Rightarrow> DecryptingAudioDecoder \<Rightarrow> nat" where
  "responses V [] s = 0"
| "responses V (c # cs) s =
     (case step V c s of
        Inl e \<Rightarrow> 0
      | Inr s1 \<Rightarrow> (if is_response c s then 1 else 0) + responses V cs s1)"

definition single_flight :: "DecryptingAudioDecoder \<Rightarrow> nat \<Rightarrow> bool" where
  "single_flight s res \<longleftrightarrow>
     (state s = kPendingDecode \<longrightarrow> submitted s = res + 1) \<and>
     (state s \<noteq> kPendingDecode \<and> state s \<noteq> kStopped \<longrightarrow> submitted s = res) \<and>
     (state s = kStopped \<longrightarrow>
        submitted s = res \<or> (submitted s = res + 1 \<and> decryptor s = None))"

text \<open>How one step may change the output queue: not at all, or by removing its front.\<close>

definition queue_step :: "DecryptingAudioDecoder \<Rightarrow> DecryptingAudioDecoder \<Rightarrow> bool" where
  "queue_step s s' \<longleftrightarrow>
     queued_audio_frames s' = queued_audio_frames s \<or>
     queued_audio_frames s' = tl (queued_audio_frames s)"

text \<open>A response that carries two frames.\<close>

definition example_response :: Call where
  "example_response = Run_DeliverFrame (Some 0) 4 kSuccess [example_frame, example_frame]"

text \<open>For the reconstructed timestamps: the frames counted before the \<open>i\<close>-th frame of a list.\<close>

definition frames_before :: "AudioBuffer list \<Rightarrow> nat \<Rightarrow> int" where
  "frames_before frames i = sum_list (map ab_frame_count (take i frames))"

text \<open>
  For a response without a key: the calls that signal the arrival of a key, and where the
  retry flag \<^verbatim>\<open>key_added_while_decode_pending_\<close> can be set.
\<close>

fun is_key_arrival :: "Call \<Rightarrow> bool" where
  "is_key_arrival (Run_OnKeyAdded w) = True"
| "is_key_arrival c = False"

definition latch_inv :: "DecryptingAudioDecoder \<Rightarrow> bool" where
  "latch_inv s \<longleftrightarrow>
     (key_added_while_decode_pending s \<longrightarrow>
        state s = kPendingDecode \<or> (state s = kStopped \<and> decryptor s = None))"

text \<open>
  For the initialization of the decryptor's decoder: the configurations passed to
  \<^verbatim>\<open>InitializeAudioDecoder\<close> so far, in order, and the last of them; from
  \<open>kPendingDecoderInit\<close> on it is the current configuration, which has the sample format
  S16. While the decoder is being set up no decode and no reset is pending, and while the
  decryptor is awaited the callback that asks for it is held.
\<close>

fun decoder_init_of :: "Effect \<Rightarrow> AudioDecoderConfig list" where
  "decoder_init_of (Decryptor_InitializeAudioDecoder cfg w) = [cfg]"
| "decoder_init_of e = []"

definition decoder_inits :: "Effect list \<Rightarrow> AudioDecoderConfig list" where
  "decoder_inits es = concat (map decoder_init_of es)"

definition last_decoder_init :: "Effect list \<Rightarrow> AudioDecoderConfig option" where
  "last_decoder_init es =
     (if decoder_inits es = [] then None else Some (last (decoder_inits es)))"

definition decoder_init_inv :: "DecryptingAudioDecoder \<Rightarrow> bool" where
  "decoder_init_inv s \<longleftrightarrow>
     (state s \<in> {kPendingDecoderInit, kIdle, kPendingDecode, kWaitingForKey, kDecodeFinished}
        \<longrightarrow> last_decoder_init (effects s) = Some (config s) \<and>
            cfg_sample_format (config s) = kSampleFormatS16)"

definition init_inv :: "DecryptingAudioDecoder \<Rightarrow> bool" where
  "init_inv s \<longleftrightarrow>
     (state s \<in> {kDecryptorRequested, kPendingDecoderInit}
        \<longrightarrow> decode_cb s = None \<and> reset_cb s = None) \<and>
     (state s = kDecryptorRequested \<longrightarrow> set_decryptor_ready_cb s \<noteq> None)"

text \<open>
  For the order of the output queue: a frame that differs from another at most in its
  timestamp and duration, the \<open>Decode\<close> calls that draw the queued frames, and a response
  that carries three frames.
\<close>

definition retimed :: "AudioBuffer \<Rightarrow> AudioBuffer \<Rightarrow> bool" where
  "retimed f g \<longleftrightarrow> g = f\<lparr>ab_timestamp := ab_timestamp g, ab_duration := ab_duration g\<rparr>"

definition drain_calls :: "Callback list \<Rightarrow> Call list" where
  "drain_calls cbs = map (\<lambda>cb. Call_Decode None (Some cb)) cbs"

definition example_burst :: Call where
  "example_burst =
     Run_DeliverFrame (Some 0) 4 kSuccess
       [example_frame, example_frame\<lparr>ab_frame_count := 200\<rparr>,
        example_frame\<lparr>ab_frame_count := 300\<rparr>]"

text \<open>
  For the timestamps of the frames handed out: the calls of a decode sequence (\<open>Decode\<close>
  calls, decryptor responses and key arrivals), the frames of the \<open>kSuccess\<close> responses
  of a call sequence that reach the decoder (bound to the weak pointer of generation \<open>g\<close>),
  in arrival order, and the frames the decoder has handed out: those it has run through
  the decode callback, in order, followed by those still queued. The end-of-stream frame
  carries no audio and is not counted. What holds of the queue and of the helper in every
  reachable state: no queued frame is the end-of-stream frame, and the helper counts at
  the sample rate the decoder reports.
\<close>

fun decoding_call :: "Call \<Rightarrow> bool" where
  "decoding_call (Call_Decode buffer cb) = True"
| "decoding_call (Run_DeliverFrame w n st frames) = True"
| "decoding_call (Run_OnKeyAdded w) = True"
| "decoding_call c = False"

fun response_frames :: "nat \<Rightarrow> Call \<Rightarrow> AudioBuffer list" where
  "response_frames g (Run_DeliverFrame w n st frames) =
     (if w = Some g \<and> st = kSuccess then frames else [])"
| "response_frames g c = []"

definition success_frames :: "nat \<Rightarrow> Call list \<Rightarrow> AudioBuffer list" where
  "success_frames g cs = concat (map (response_frames g) cs)"

fun delivered_frame :: "Effect \<Rightarrow> AudioBuffer list" where
  "delivered_frame (DecodeCB_Run cb st (Some f)) = (if ab_end_of_stream f then [] else [f])"
| "delivered_frame e = []"

definition delivered :: "Effect list \<Rightarrow> AudioBuffer list" where
  "delivered es = concat (map delivered_frame es)"

definition handed_out :: "DecryptingAudioDecoder \<Rightarrow> AudioBuffer list" where
  "handed_out s = delivered (effects s) @ queued_audio_frames s"

definition output_inv :: "DecryptingAudioDecoder \<Rightarrow> bool" where
  "output_inv s \<longleftrightarrow>
     list_all (\<lambda>f. \<not> ab_end_of_stream f) (queued_audio_frames s) \<and>
     (\<forall>h. timestamp_helper s = Some h \<longrightarrow> ath_samples_per_second h = samples_per_second s)"

text \<open>
  A response with the timestamp and duration the decryptor attached to each frame
  replaced by given ones, and a decode sequence with two responses.
\<close>

fun retime_call :: "TimeDelta \<Rightarrow> TimeDelta \<Rightarrow> Call \<Rightarrow> Call" where
  "retime_call t d (Run_DeliverFrame w n st frames) =
     Run_DeliverFrame w n st (map (\<lambda>f. f\<lparr>ab_timestamp := t, ab_duration := d\<rparr>) frames)"
| "retime_call t d c = c"

definition example_decode_sequence :: "Call list" where
  "example_decode_sequence =
     [example_response, Call_Decode None (Some 3), Call_Decode (Some example_buffer) (Some 4),
      Run_DeliverFrame (Some 0) 4 kSuccess [example_frame]]"

section \<open>Properties\<close>

subsection \<open>The output queue read by \<open>GetDecodeOutput\<close>\<close>

lemma GetDecodeOutput_cases:
  "GetDecodeOutput s =
     (case queued_audio_frames s of
        [] \<Rightarrow> (None, s)
      | f # fs \<Rightarrow> (Some f, s\<lparr>queued_audio_frames := fs\<rparr>))"
  by (simp add: GetDecodeOutput_def split: list.split)

lemma GetDecodeOutput_times_empty:
  "queued_audio_frames s = [] \<Longrightarrow> GetDecodeOutput_times k s = (replicate k None, s)"
  by (induction k) (simp_all add: GetDecodeOutput_def)

lemma GetDecodeOutput_times_drain:
  "queued_audio_frames s = q \<Longrightarrow>
   GetDecodeOutput_times (length q + k) s =
     (map Some q @ replicate k None, s\<lparr>queued_audio_frames := []\<rparr>)"
proof (induction q arbitrary: s)
  case Nil
  then show ?case using GetDecodeOutput_times_empty[of s k] by simp
next
  case (Cons f fs)
  have "GetDecodeOutput s = (Some f, s\<lparr>queued_audio_frames := fs\<rparr>)"
    using Cons.prems by (simp add: GetDecodeOutput_def)
  moreover have "GetDecodeOutput_times (length fs + k) (s\<lparr>queued_audio_frames := fs\<rparr>) =
     (map Some fs @ replicate k None, s\<lparr>queued_audio_frames := []\<rparr>)"
    using Cons.IH[of "s\<lparr>queued_audio_frames := fs\<rparr>"] by simp
  ultimately show ?case by simp
qed

text \<open>
  Claim C10. \<open>GetDecodeOutput\<close> returns null when the output queue is empty; otherwise it
  returns the front frame and removes it, and no other field changes. Calling it
  repeatedly returns the queued frames front to back and null from then on, leaving
  the queue empty.
\<close>

theorem GetDecodeOutput_fifo:
  "GetDecodeOutput s =
     (case queued_audio_frames s of
        [] \<Rightarrow> (None, s)
      | f # fs \<Rightarrow> (Some f, s\<lparr>queued_audio_frames := fs\<rparr>))
   \<and> GetDecodeOutput_times (length (queued_audio_frames s) + k) s =
       (map Some (queued_audio_frames s) @ replicate k None, s\<lparr>queued_audio_frames := []\<rparr>)"
  using GetDecodeOutput_cases[of s] GetDecodeOutput_times_drain[of s "queued_audio_frames s" k]
  by simp

subsection \<open>When the private methods return\<close>

lemma and_then_Inr: "and_then m f = Inr y \<longleftrightarrow> (\<exists>x. m = Inr x \<and> f x = Inr y)"
  by (cases m) (simp_all add: and_then_def)

lemma ResetAndReturn_decode_cb_Inr:
  "ResetAndReturn_decode_cb st fr s = Inr s' \<longleftrightarrow>
     (\<exists>cb. decode_cb s = Some cb \<and> s' = emit (DecodeCB_Run cb st fr) (s\<lparr>decode_cb := None\<rparr>))"
  by (auto simp: ResetAndReturn_decode_cb_def split: option.splits)

lemma ResetAndReturn_init_cb_Inr:
  "ResetAndReturn_init_cb st s = Inr s' \<longleftrightarrow>
     (\<exists>cb. init_cb s = Some cb \<and> s' = emit (InitCB_Run cb st) (s\<lparr>init_cb := None\<rparr>))"
  by (auto simp: ResetAndReturn_init_cb_def split: option.splits)

lemma ResetAndReturn_reset_cb_Inr:
  "ResetAndReturn_reset_cb s = Inr s' \<longleftrightarrow>
     (\<exists>cb. reset_cb s = Some cb \<and> s' = emit (ResetCB_Run cb) (s\<lparr>reset_cb := None\<rparr>))"
  by (auto simp: ResetAndReturn_reset_cb_def split: option.splits)

lemma DecodePendingBuffer_Inr:
  "DecodePendingBuffer s = Inr s' \<longleftrightarrow>
     (\<exists>b d. state s = kPendingDecode \<and> pending_buffer_to_decode s = Some b \<and> decryptor s = Some d \<and>
        s' = emit (Decryptor_DecryptAndDecodeAudio b
                     (buffer_size_of b) (weak_this s)) s)"
  by (auto simp: DecodePendingBuffer_def Let_def split: option.splits)

lemma DoReset_Inr:
  "DoReset s = Inr s' \<longleftrightarrow>
     (\<exists>h cb. init_cb s = None \<and> decode_cb s = None \<and> timestamp_helper s = Some h \<and>
        reset_cb s = Some cb \<and>
        s' = emit (ResetCB_Run cb)
               (s\<lparr>timestamp_helper := Some (SetBaseTimestamp kNoTimestamp h), state := kIdle,
                  reset_cb := None\<rparr>))"
  by (auto simp: DoReset_def ResetAndReturn_reset_cb_Inr split: option.splits)

lemma InitializeDecoder_Inr:
  "InitializeDecoder s = Inr s' \<longleftrightarrow>
     (\<exists>d. decryptor s = Some d \<and>
        s' = emit (Decryptor_InitializeAudioDecoder
                     (AudioDecoderConfig_Initialize (cfg_codec (config s)) kSampleFormatS16
                        (cfg_channel_layout (config s)) (cfg_samples_per_second (config s))
                        (cfg_extra_data (config s)) (length (cfg_extra_data (config s)))
                        (cfg_is_encrypted (config s)) False 0 0) (weak_this s))
               (s\<lparr>config := AudioDecoderConfig_Initialize (cfg_codec (config s)) kSampleFormatS16
                        (cfg_channel_layout (config s)) (cfg_samples_per_second (config s))
                        (cfg_extra_data (config s)) (length (cfg_extra_data (config s)))
                        (cfg_is_encrypted (config s)) False 0 0,
                  state := kPendingDecoderInit\<rparr>))"
  by (auto simp: InitializeDecoder_def Let_def split: option.splits)

lemma EnqueueFrames_Inr:
  "EnqueueFrames frames s = Inr s' \<longleftrightarrow>
     (\<exists>q th. EnqueueFrames_loop frames (timestamp_helper s) = Inr (q, th) \<and>
        s' = s\<lparr>queued_audio_frames := q, timestamp_helper := th\<rparr>)"
  by (auto simp: EnqueueFrames_def split: sum.splits)

lemma snd_GetDecodeOutput:
  "snd (GetDecodeOutput s) = s\<lparr>queued_audio_frames := tl (queued_audio_frames s)\<rparr>"
  by (simp add: GetDecodeOutput_def)

lemmas Inr_simps = and_then_Inr ResetAndReturn_decode_cb_Inr ResetAndReturn_init_cb_Inr
  ResetAndReturn_reset_cb_Inr DecodePendingBuffer_Inr DoReset_Inr InitializeDecoder_Inr
  EnqueueFrames_Inr

lemma Stop_result:
  "Stop closure s =
     Inr (s\<lparr>weak_factory := weak_factory s + 1, decryptor := None,
            set_decryptor_ready_cb := None, pending_buffer_to_decode := None,
            init_cb := None, decode_cb := None, reset_cb := None, state := kStopped,
            effects := effects s @ Stop_effects closure s\<rparr>)"
  by (cases "decryptor s"; cases "set_decryptor_ready_cb s"; cases "init_cb s";
      cases "decode_cb s"; cases "reset_cb s")
     (simp_all add: Stop_def Stop_effects_def emit_def Let_def)

subsection \<open>Every decode callback is run once\<close>

text \<open>
  Each method leaves the number of runs of a decode callback plus its being held as it
  was, except \<open>Decode\<close>, which adds one for the callback it is given.
\<close>

lemmas account_defs = decode_cb_account_def decode_cb_runs_def decode_cb_pending_def emit_def

lemma Initialize_account:
  "Initialize V cfg cb0 s = Inr s' \<Longrightarrow> decode_cb_account cb s' = decode_cb_account cb s"
  by (auto simp: Initialize_def Let_def Inr_simps account_defs split: if_splits option.splits)

lemma Decode_account:
  "Decode buffer cbo s = Inr s' \<Longrightarrow>
   decode_cb_account cb s' = decode_cb_account cb s + (if cbo = Some cb then 1 else 0)"
  by (auto simp: Decode_def Let_def Inr_simps account_defs split: if_splits option.splits)

lemma Reset_account:
  "Reset closure s = Inr s' \<Longrightarrow> decode_cb_account cb s' = decode_cb_account cb s"
  by (auto simp: Reset_def Let_def Inr_simps account_defs split: if_splits option.splits)

lemma Stop_account:
  "Stop closure s = Inr s' \<Longrightarrow> decode_cb_account cb s' = decode_cb_account cb s"
  by (auto simp: Stop_result Stop_effects_def account_defs split: option.splits)

lemma SetDecryptor_account:
  "SetDecryptor d s = Inr s' \<Longrightarrow> decode_cb_account cb s' = decode_cb_account cb s"
  by (auto simp: SetDecryptor_def Let_def Inr_simps account_defs split: if_splits option.splits)

lemma FinishInitialization_account:
  "FinishInitialization ok s = Inr s' \<Longrightarrow> decode_cb_account cb s' = decode_cb_account cb s"
  by (auto simp: FinishInitialization_def UpdateDecoderConfig_def Let_def Inr_simps
        account_defs split: if_splits option.splits)

lemma DeliverFrame_account:
  "DeliverFrame n st frames s = Inr s' \<Longrightarrow> decode_cb_account cb s' = decode_cb_account cb s"
  by (auto simp: DeliverFrame_def Let_def Inr_simps account_defs split: if_splits option.splits)

lemma OnKeyAdded_account:
  "OnKeyAdded s = Inr s' \<Longrightarrow> decode_cb_account cb s' = decode_cb_account cb s"
  by (auto simp: OnKeyAdded_def Let_def Inr_simps account_defs split: if_splits option.splits)

lemma step_account:
  assumes "step V c s = Inr s'"
  shows "decode_cb_account cb s' = decode_cb_account cb s + (if is_Decode_call cb c then 1 else 0)"
proof (cases c)
  case (Call_Initialize cfg cb0)
  with assms show ?thesis using Initialize_account[of V cfg cb0 s s' cb]  by simp
next
  case (Call_Decode buffer cbo)
  with assms show ?thesis using Decode_account[of buffer cbo s s' cb] by simp
next
  case Call_GetDecodeOutput
  with assms show ?thesis by (auto simp: snd_GetDecodeOutput account_defs)
next
  case (Call_Reset closure)
  with assms show ?thesis using Reset_account[of closure s s' cb] by simp
next
  case (Call_Stop closure)
  with assms show ?thesis using Stop_account[of closure s s' cb] by simp
next
  case (Run_SetDecryptor w d)
  with assms show ?thesis using SetDecryptor_account[of d s s' cb]
    by (auto simp: via_weak_ptr_def split: if_splits)
next
  case (Run_FinishInitialization w ok)
  with assms show ?thesis using FinishInitialization_account[of ok s s' cb]
    by (auto simp: via_weak_ptr_def split: if_splits)
next
  case (Run_DeliverFrame w n st frames)
  with assms show ?thesis using DeliverFrame_account[of n st frames s s' cb]
    by (auto simp: via_weak_ptr_def split: if_splits)
next
  case (Run_OnKeyAdded w)
  with assms show ?thesis using OnKeyAdded_account[of s s' cb]
    by (auto simp: via_weak_ptr_def split: if_splits)
qed

lemma run_account:
  "run V cs s = Inr s' \<Longrightarrow>
   decode_cb_account cb s' = decode_cb_account cb s + decode_calls cb cs"
proof (induction cs arbitrary: s)
  case Nil
  then show ?case by (simp add: decode_calls_def)
next
  case (Cons c cs)
  then obtain s1 where s1: "step V c s = Inr s1" "run V cs s1 = Inr s'"
    by (auto split: sum.splits)
  show ?case using step_account[OF s1(1), of cb] Cons.IH[OF s1(2)]
    by (simp add: decode_calls_def)
qed

subsection \<open>The invariant of the fields\<close>

lemma EnqueueFrames_loop_helper:
  "EnqueueFrames_loop frames th = Inr (q, th') \<Longrightarrow> th \<noteq> None \<Longrightarrow> th' \<noteq> None"
  by (induction frames arbitrary: th q)
     (auto simp: Let_def split: if_splits option.splits sum.splits)

lemma constructor_fields_inv: "fields_inv (constructor r)"
  by (simp add: fields_inv_def constructor_def)

lemma Initialize_fields_inv:
  "Initialize V cfg cb0 s = Inr s' \<Longrightarrow> fields_inv s \<Longrightarrow> fields_inv s'"
  by (auto simp: Initialize_def Let_def Inr_simps fields_inv_def emit_def split: if_split_asm option.splits)

lemma Decode_fields_inv:
  "Decode buffer cbo s = Inr s' \<Longrightarrow> fields_inv s \<Longrightarrow> fields_inv s'"
  by (auto simp: Decode_def Let_def Inr_simps fields_inv_def emit_def split: if_split_asm option.splits)

lemma Reset_fields_inv:
  "Reset closure s = Inr s' \<Longrightarrow> fields_inv s \<Longrightarrow> fields_inv s'"
  by (auto simp: Reset_def Let_def Inr_simps fields_inv_def emit_def split: if_split_asm option.splits)

lemma Stop_fields_inv:
  "Stop closure s = Inr s' \<Longrightarrow> fields_inv s'"
  by (auto simp: Stop_result fields_inv_def)

lemma SetDecryptor_fields_inv:
  "SetDecryptor d s = Inr s' \<Longrightarrow> fields_inv s \<Longrightarrow> fields_inv s'"
  by (auto simp: SetDecryptor_def Let_def Inr_simps fields_inv_def emit_def split: if_split_asm option.splits)

lemma FinishInitialization_fields_inv:
  "FinishInitialization ok s = Inr s' \<Longrightarrow> fields_inv s \<Longrightarrow> fields_inv s'"
  by (auto simp: FinishInitialization_def UpdateDecoderConfig_def Let_def Inr_simps fields_inv_def emit_def split: if_split_asm option.splits)

lemma DeliverFrame_fields_inv:
  "DeliverFrame n st frames s = Inr s' \<Longrightarrow> fields_inv s \<Longrightarrow> fields_inv s'"
  by (auto simp: DeliverFrame_def Let_def Inr_simps fields_inv_def emit_def
      dest: EnqueueFrames_loop_helper split: if_split_asm option.splits)

lemma OnKeyAdded_fields_inv:
  "OnKeyAdded s = Inr s' \<Longrightarrow> fields_inv s \<Longrightarrow> fields_inv s'"
  by (auto simp: OnKeyAdded_def Let_def Inr_simps fields_inv_def emit_def split: if_split_asm option.splits)

subsection \<open>Every reachable state satisfies the invariant\<close>

lemma via_weak_ptr_cases:
  assumes "via_weak_ptr w f s = Inr s'"
  obtains "w = Some (weak_factory s)" "f s = Inr s'" | "w \<noteq> Some (weak_factory s)" "s' = s"
  using assms by (auto simp: via_weak_ptr_def split: if_split_asm)

lemma step_fields_inv:
  assumes "step V c s = Inr s'" "fields_inv s"
  shows "fields_inv s'"
proof (cases c)
  case (Call_Initialize cfg cb0)
  with assms(1) have "Initialize V cfg cb0 s = Inr s'" by simp
  then show ?thesis using assms(2) by (rule Initialize_fields_inv)
next
  case (Call_Decode buffer cbo)
  with assms(1) have "Decode buffer cbo s = Inr s'" by simp
  then show ?thesis using assms(2) by (rule Decode_fields_inv)
next
  case Call_GetDecodeOutput
  with assms(1) have "s' = s\<lparr>queued_audio_frames := tl (queued_audio_frames s)\<rparr>"
    by (simp add: snd_GetDecodeOutput)
  then show ?thesis using assms(2) by (auto simp: fields_inv_def)
next
  case (Call_Reset closure)
  with assms(1) have "Reset closure s = Inr s'" by simp
  then show ?thesis using assms(2) by (rule Reset_fields_inv)
next
  case (Call_Stop closure)
  with assms(1) have "Stop closure s = Inr s'" by simp
  then show ?thesis by (rule Stop_fields_inv)
next
  case (Run_SetDecryptor w d)
  with assms(1) have "via_weak_ptr w (SetDecryptor d) s = Inr s'" by simp
  then show ?thesis using assms(2)
    by (cases rule: via_weak_ptr_cases) (auto intro: SetDecryptor_fields_inv)
next
  case (Run_FinishInitialization w ok)
  with assms(1) have "via_weak_ptr w (FinishInitialization ok) s = Inr s'" by simp
  then show ?thesis using assms(2)
    by (cases rule: via_weak_ptr_cases) (auto intro: FinishInitialization_fields_inv)
next
  case (Run_DeliverFrame w n st frames)
  with assms(1) have "via_weak_ptr w (DeliverFrame n st frames) s = Inr s'" by simp
  then show ?thesis using assms(2)
    by (cases rule: via_weak_ptr_cases) (auto intro: DeliverFrame_fields_inv)
next
  case (Run_OnKeyAdded w)
  with assms(1) have "via_weak_ptr w OnKeyAdded s = Inr s'" by simp
  then show ?thesis using assms(2)
    by (cases rule: via_weak_ptr_cases) (auto intro: OnKeyAdded_fields_inv)
qed

lemma run_Cons_Inr:
  "run V (c # cs) s = Inr s' \<longleftrightarrow> (\<exists>s1. step V c s = Inr s1 \<and> run V cs s1 = Inr s')"
  by (cases "step V c s") simp_all

lemma run_fields_inv:
  "run V cs s = Inr s' \<Longrightarrow> fields_inv s \<Longrightarrow> fields_inv s'"
  by (induction cs arbitrary: s) (auto simp: run_Cons_Inr simp del: run.simps(2) dest: step_fields_inv)

lemma reachable_fields_inv:
  "run V cs (constructor r) = Inr s \<Longrightarrow> fields_inv s"
  using run_fields_inv constructor_fields_inv by blast

lemma DeliverFrame_NoKey:
  assumes "fields_inv s" "state s = kPendingDecode" "reset_cb s = None"
  shows "\<exists>b. pending_buffer_to_decode s = Some b \<and>
     DeliverFrame n kNoKey [] s =
       Inr (if key_added_while_decode_pending s
            then emit (Decryptor_DecryptAndDecodeAudio b (buffer_size_of b) (weak_this s))
                   (s\<lparr>key_added_while_decode_pending := False\<rparr>)
            else s\<lparr>key_added_while_decode_pending := False, state := kWaitingForKey\<rparr>)"
  using assms
  by (auto simp: fields_inv_def DeliverFrame_def DecodePendingBuffer_def Let_def emit_def)

lemma OnKeyAdded_WaitingForKey:
  assumes "fields_inv s" "state s = kWaitingForKey"
  shows "\<exists>b. pending_buffer_to_decode s = Some b \<and>
     OnKeyAdded s =
       Inr (emit (Decryptor_DecryptAndDecodeAudio b (buffer_size_of b) (weak_this s))
              (s\<lparr>state := kPendingDecode\<rparr>))"
  using assms
  by (auto simp: fields_inv_def OnKeyAdded_def DecodePendingBuffer_def Let_def emit_def)

lemma step_WaitingForKey:
  assumes "fields_inv s" "state s = kWaitingForKey" "step V c s = Inr s'"
  shows "s' = s \<or> (\<exists>w. c = Run_OnKeyAdded w \<and> OnKeyAdded s = Inr s')
       \<or> (\<exists>closure. c = Call_Reset closure \<or> c = Call_Stop closure)"
proof (cases c)
  case (Call_Initialize cfg cb0)
  with assms show ?thesis by (auto simp: Initialize_def fields_inv_def)
next
  case (Call_Decode buffer cbo)
  with assms show ?thesis by (auto simp: Decode_def)
next
  case Call_GetDecodeOutput
  with assms show ?thesis by (auto simp: snd_GetDecodeOutput fields_inv_def)
next
  case (Call_Reset closure)
  then show ?thesis by simp
next
  case (Call_Stop closure)
  then show ?thesis by simp
next
  case (Run_SetDecryptor w d)
  with assms show ?thesis by (auto elim!: via_weak_ptr_cases simp: SetDecryptor_def)
next
  case (Run_FinishInitialization w ok)
  with assms show ?thesis by (auto elim!: via_weak_ptr_cases simp: FinishInitialization_def)
next
  case (Run_DeliverFrame w n st frames)
  with assms show ?thesis by (auto elim!: via_weak_ptr_cases simp: DeliverFrame_def)
next
  case (Run_OnKeyAdded w)
  with assms show ?thesis by (auto elim!: via_weak_ptr_cases)
qed

lemmas example_defs = example_IsValidConfig_def example_config_def example_buffer_def
  example_frame_def example_calls_def

lemmas method_defs = Initialize_def Decode_def Reset_def Stop_def SetDecryptor_def
  FinishInitialization_def DeliverFrame_def OnKeyAdded_def via_weak_ptr_def
  InitializeDecoder_def DecodePendingBuffer_def DoReset_def EnqueueFrames_def
  UpdateDecoderConfig_def ResetAndReturn_init_cb_def ResetAndReturn_decode_cb_def
  ResetAndReturn_reset_cb_def and_then_def emit_def constructor_def
  AudioDecoderConfig_Initialize_def new_AudioTimestampHelper_def SetBaseTimestamp_def
  GetTimestamp_def GetFrameDuration_def AddFrames_def buffer_size_of_def
  kSupportedBitsPerChannel_def default_AudioDecoderConfig_def CreateEOSBuffer_def

lemma example_run:
  "\<exists>s. run example_IsValidConfig example_calls (constructor (Some 0)) = Inr s \<and>
       state s = kPendingDecode \<and> reset_cb s = None \<and> decode_cb s = Some 2 \<and>
       \<not> key_added_while_decode_pending s"
  by (simp add: example_defs method_defs Let_def)

lemma run_append:
  "run V (cs @ ds) s = (case run V cs s of Inl e \<Rightarrow> Inl e | Inr s1 \<Rightarrow> run V ds s1)"
  by (induction cs arbitrary: s) (auto split: sum.splits)

lemma run_snoc_Inr:
  "run V cs s = Inr s1 \<Longrightarrow> step V c s1 = Inr s2 \<Longrightarrow> run V (cs @ [c]) s = Inr s2"
  by (simp add: run_append)

lemma constructor_account: "decode_cb_account cb (constructor r) = 0"
  by (simp add: account_defs constructor_def)

subsection \<open>A response without a key\<close>

lemma constructor_latch_inv: "latch_inv (constructor r)"
  by (simp add: latch_inv_def constructor_def)

lemma Initialize_latch_inv:
  "Initialize V cfg cb0 s = Inr s' \<Longrightarrow> fields_inv s \<Longrightarrow> latch_inv s \<Longrightarrow> latch_inv s'"
  by (auto simp: Initialize_def Let_def Inr_simps latch_inv_def fields_inv_def emit_def
        split: if_split_asm option.splits)

lemma Decode_latch_inv:
  "Decode buffer cbo s = Inr s' \<Longrightarrow> latch_inv s \<Longrightarrow> latch_inv s'"
  by (auto simp: Decode_def Let_def Inr_simps latch_inv_def emit_def
        split: if_split_asm option.splits)

lemma Reset_latch_inv:
  "Reset closure s = Inr s' \<Longrightarrow> latch_inv s \<Longrightarrow> latch_inv s'"
  by (auto simp: Reset_def Let_def Inr_simps latch_inv_def emit_def
        split: if_split_asm option.splits)

lemma Stop_latch_inv:
  "Stop closure s = Inr s' \<Longrightarrow> latch_inv s \<Longrightarrow> latch_inv s'"
  by (auto simp: Stop_result latch_inv_def)

lemma SetDecryptor_latch_inv:
  "SetDecryptor d s = Inr s' \<Longrightarrow> latch_inv s \<Longrightarrow> latch_inv s'"
  by (auto simp: SetDecryptor_def Let_def Inr_simps latch_inv_def emit_def
        split: if_split_asm option.splits)

lemma FinishInitialization_latch_inv:
  "FinishInitialization ok s = Inr s' \<Longrightarrow> latch_inv s \<Longrightarrow> latch_inv s'"
  by (auto simp: FinishInitialization_def UpdateDecoderConfig_def Let_def Inr_simps
        latch_inv_def emit_def split: if_split_asm option.splits)

lemma DeliverFrame_latch_inv:
  "DeliverFrame n st frames s = Inr s' \<Longrightarrow> latch_inv s'"
  by (auto simp: DeliverFrame_def Let_def Inr_simps latch_inv_def emit_def
        split: if_split_asm option.splits)

lemma OnKeyAdded_latch_inv:
  "OnKeyAdded s = Inr s' \<Longrightarrow> latch_inv s \<Longrightarrow> latch_inv s'"
  by (auto simp: OnKeyAdded_def Let_def Inr_simps latch_inv_def emit_def
        split: if_split_asm option.splits)

lemma step_latch_inv:
  assumes "step V c s = Inr s'" "fields_inv s" "latch_inv s"
  shows "latch_inv s'"
proof (cases c)
  case (Call_Initialize cfg cb0)
  with assms(1) have "Initialize V cfg cb0 s = Inr s'" by simp
  then show ?thesis using assms(2,3) by (rule Initialize_latch_inv)
next
  case (Call_Decode buffer cbo)
  with assms(1) have "Decode buffer cbo s = Inr s'" by simp
  then show ?thesis using assms(3) by (rule Decode_latch_inv)
next
  case Call_GetDecodeOutput
  with assms(1) have "s' = s\<lparr>queued_audio_frames := tl (queued_audio_frames s)\<rparr>"
    by (simp add: snd_GetDecodeOutput)
  then show ?thesis using assms(3) by (simp add: latch_inv_def)
next
  case (Call_Reset closure)
  with assms(1) have "Reset closure s = Inr s'" by simp
  then show ?thesis using assms(3) by (rule Reset_latch_inv)
next
  case (Call_Stop closure)
  with assms(1) have "Stop closure s = Inr s'" by simp
  then show ?thesis using assms(3) by (rule Stop_latch_inv)
next
  case (Run_SetDecryptor w d)
  with assms(1) have "via_weak_ptr w (SetDecryptor d) s = Inr s'" by simp
  then show ?thesis using assms(3)
    by (cases rule: via_weak_ptr_cases) (auto intro: SetDecryptor_latch_inv)
next
  case (Run_FinishInitialization w ok)
  with assms(1) have "via_weak_ptr w (FinishInitialization ok) s = Inr s'" by simp
  then show ?thesis using assms(3)
    by (cases rule: via_weak_ptr_cases) (auto intro: FinishInitialization_latch_inv)
next
  case (Run_DeliverFrame w n st frames)
  with assms(1) have "via_weak_ptr w (DeliverFrame n st frames) s = Inr s'" by simp
  then show ?thesis using assms(3)
    by (cases rule: via_weak_ptr_cases) (auto intro: DeliverFrame_latch_inv)
next
  case (Run_OnKeyAdded w)
  with assms(1) have "via_weak_ptr w OnKeyAdded s = Inr s'" by simp
  then show ?thesis using assms(3)
    by (cases rule: via_weak_ptr_cases) (auto intro: OnKeyAdded_latch_inv)
qed

lemma run_latch_inv:
  "run V cs s = Inr s' \<Longrightarrow> fields_inv s \<Longrightarrow> latch_inv s \<Longrightarrow> latch_inv s'"
proof (induction cs arbitrary: s)
  case Nil
  then show ?case by simp
next
  case (Cons c cs)
  then obtain s1 where s1: "step V c s = Inr s1" "run V cs s1 = Inr s'"
    by (auto simp: run_Cons_Inr simp del: run.simps(2))
  have "fields_inv s1" using s1(1) Cons.prems(2) by (rule step_fields_inv)
  moreover have "latch_inv s1" using s1(1) Cons.prems(2,3) by (rule step_latch_inv)
  ultimately show ?case using Cons.IH[OF s1(2)] by blast
qed

lemma OnKeyAdded_PendingDecode:
  "state s = kPendingDecode \<Longrightarrow>
   OnKeyAdded s = Inr (s\<lparr>key_added_while_decode_pending := True\<rparr>)"
  by (simp add: OnKeyAdded_def)

lemma DeliverFrame_NoKey_after_key:
  assumes "fields_inv s" "state s = kPendingDecode" "reset_cb s = None"
  shows "\<exists>b. pending_buffer_to_decode s = Some b \<and>
     DeliverFrame n kNoKey [] (s\<lparr>key_added_while_decode_pending := True\<rparr>) =
       Inr (emit (Decryptor_DecryptAndDecodeAudio b (buffer_size_of b) (weak_this s))
              (s\<lparr>key_added_while_decode_pending := False\<rparr>))"
  using assms
  by (auto simp: fields_inv_def DeliverFrame_def DecodePendingBuffer_def Let_def emit_def)

lemma Stop_WaitingForKey:
  assumes "fields_inv s" "state s = kWaitingForKey"
  shows "\<exists>cb. decode_cb s = Some cb \<and>
     Stop_effects closure s =
       Decryptor_DeinitializeDecoder #
       (case set_decryptor_ready_cb s of
          None \<Rightarrow> [] | Some ready \<Rightarrow> [SetDecryptorReadyCB_Run ready NullDecryptorReadyCB]) @
       [DecodeCB_Run cb kAborted None, PostTask closure]"
  using assms by (auto simp: fields_inv_def Stop_effects_def)

lemma Reset_WaitingForKey:
  assumes "fields_inv s" "state s = kWaitingForKey"
  shows "\<exists>cb h. decode_cb s = Some cb \<and> timestamp_helper s = Some h \<and>
     Reset closure s =
       Inr (emit (ResetCB_Run closure) (emit (DecodeCB_Run cb kAborted None)
              (emit Decryptor_ResetDecoder
                 (s\<lparr>pending_buffer_to_decode := None, decode_cb := None,
                    timestamp_helper := Some (SetBaseTimestamp kNoTimestamp h),
                    state := kIdle, reset_cb := None\<rparr>))))"
  using assms
  by (auto simp: fields_inv_def Reset_def DoReset_def ResetAndReturn_decode_cb_def
      ResetAndReturn_reset_cb_def and_then_def Let_def emit_def)

text \<open>
  Claim C1, amended. In every reachable state: the retry flag is set only while a decode
  is pending (or after \<open>Stop\<close>), and a key that arrives in \<open>kPendingDecode\<close> sets it. A
  \<open>kNoKey\<close> response to the pending decode, no reset pending, keeps the submitted buffer
  as the pending buffer; with the flag set it submits the same buffer again, clears the
  flag and stays in \<open>kPendingDecode\<close>, and runs no callback; with the flag clear the state
  becomes \<open>kWaitingForKey\<close> and nothing is run. In \<open>kWaitingForKey\<close> a key arrival moves
  the state back to \<open>kPendingDecode\<close> and resubmits the buffer, and every other step leaves
  the object as it is, except \<open>Reset\<close> and \<open>Stop\<close>, which cancel the decode: \<open>Reset\<close> runs
  the decode callback with \<open>kAborted\<close> at once. In every case the runs of a decode callback
  plus its being held are as many as the \<open>Decode\<close> calls that passed it: it is run at most
  once per \<open>Decode\<close> call.
\<close>

theorem NoKey_retry_or_wait:
  assumes "run V cs (constructor r) = Inr s"
  shows "(key_added_while_decode_pending s \<longrightarrow> state s = kPendingDecode \<or> state s = kStopped)
       \<and> (state s = kPendingDecode \<longrightarrow>
            OnKeyAdded s = Inr (s\<lparr>key_added_while_decode_pending := True\<rparr>))
       \<and> (state s = kPendingDecode \<and> reset_cb s = None \<longrightarrow>
           (\<exists>b. pending_buffer_to_decode s = Some b \<and>
              DeliverFrame n kNoKey [] s =
                Inr (if key_added_while_decode_pending s
                     then emit (Decryptor_DecryptAndDecodeAudio b (buffer_size_of b) (weak_this s))
                            (s\<lparr>key_added_while_decode_pending := False\<rparr>)
                     else s\<lparr>key_added_while_decode_pending := False,
                            state := kWaitingForKey\<rparr>)
              \<and> DeliverFrame n kNoKey [] (s\<lparr>key_added_while_decode_pending := True\<rparr>) =
                  Inr (emit (Decryptor_DecryptAndDecodeAudio b (buffer_size_of b) (weak_this s))
                         (s\<lparr>key_added_while_decode_pending := False\<rparr>))))
       \<and> (state s = kWaitingForKey \<longrightarrow>
           (\<exists>b cb h. pending_buffer_to_decode s = Some b \<and> decode_cb s = Some cb \<and>
              timestamp_helper s = Some h \<and>
              OnKeyAdded s =
                Inr (emit (Decryptor_DecryptAndDecodeAudio b (buffer_size_of b) (weak_this s))
                       (s\<lparr>state := kPendingDecode\<rparr>)) \<and>
              Reset closure s =
                Inr (emit (ResetCB_Run closure) (emit (DecodeCB_Run cb kAborted None)
                       (emit Decryptor_ResetDecoder
                          (s\<lparr>pending_buffer_to_decode := None, decode_cb := None,
                             timestamp_helper := Some (SetBaseTimestamp kNoTimestamp h),
                             state := kIdle, reset_cb := None\<rparr>)))) \<and>
              Stop closure s =
                Inr (s\<lparr>weak_factory := weak_factory s + 1, decryptor := None,
                       set_decryptor_ready_cb := None, pending_buffer_to_decode := None,
                       init_cb := None, decode_cb := None, reset_cb := None,
                       state := kStopped,
                       effects := effects s @ Stop_effects closure s\<rparr>) \<and>
              Stop_effects closure s =
                Decryptor_DeinitializeDecoder #
                (case set_decryptor_ready_cb s of
                   None \<Rightarrow> []
                 | Some ready \<Rightarrow> [SetDecryptorReadyCB_Run ready NullDecryptorReadyCB]) @
                [DecodeCB_Run cb kAborted None, PostTask closure])
           \<and> (\<forall>c s'. step V c s = Inr s' \<longrightarrow>
                 s' = s \<or> (\<exists>w. c = Run_OnKeyAdded w \<and> OnKeyAdded s = Inr s')
                 \<or> (\<exists>cl. c = Call_Reset cl \<or> c = Call_Stop cl)))
       \<and> decode_cb_runs cb' s + decode_cb_pending cb' s = decode_calls cb' cs"
proof -
  have inv: "fields_inv s" using assms by (rule reachable_fields_inv)
  have "latch_inv s"
    using assms constructor_fields_inv constructor_latch_inv by (rule run_latch_inv)
  then have 1: "key_added_while_decode_pending s \<longrightarrow>
      state s = kPendingDecode \<or> state s = kStopped"
    by (auto simp: latch_inv_def)
  have 2: "state s = kPendingDecode \<longrightarrow>
            OnKeyAdded s = Inr (s\<lparr>key_added_while_decode_pending := True\<rparr>)"
    using OnKeyAdded_PendingDecode by blast
  have 3: "state s = kPendingDecode \<and> reset_cb s = None \<longrightarrow>
           (\<exists>b. pending_buffer_to_decode s = Some b \<and>
              DeliverFrame n kNoKey [] s =
                Inr (if key_added_while_decode_pending s
                     then emit (Decryptor_DecryptAndDecodeAudio b (buffer_size_of b) (weak_this s))
                            (s\<lparr>key_added_while_decode_pending := False\<rparr>)
                     else s\<lparr>key_added_while_decode_pending := False,
                            state := kWaitingForKey\<rparr>)
              \<and> DeliverFrame n kNoKey [] (s\<lparr>key_added_while_decode_pending := True\<rparr>) =
                  Inr (emit (Decryptor_DecryptAndDecodeAudio b (buffer_size_of b) (weak_this s))
                         (s\<lparr>key_added_while_decode_pending := False\<rparr>)))"
    using DeliverFrame_NoKey[OF inv, of n] DeliverFrame_NoKey_after_key[OF inv, of n]
    by auto
  have 4: "state s = kWaitingForKey \<longrightarrow>
           (\<exists>b cb h. pending_buffer_to_decode s = Some b \<and> decode_cb s = Some cb \<and>
              timestamp_helper s = Some h \<and>
              OnKeyAdded s =
                Inr (emit (Decryptor_DecryptAndDecodeAudio b (buffer_size_of b) (weak_this s))
                       (s\<lparr>state := kPendingDecode\<rparr>)) \<and>
              Reset closure s =
                Inr (emit (ResetCB_Run closure) (emit (DecodeCB_Run cb kAborted None)
                       (emit Decryptor_ResetDecoder
                          (s\<lparr>pending_buffer_to_decode := None, decode_cb := None,
                             timestamp_helper := Some (SetBaseTimestamp kNoTimestamp h),
                             state := kIdle, reset_cb := None\<rparr>)))) \<and>
              Stop closure s =
                Inr (s\<lparr>weak_factory := weak_factory s + 1, decryptor := None,
                       set_decryptor_ready_cb := None, pending_buffer_to_decode := None,
                       init_cb := None, decode_cb := None, reset_cb := None,
                       state := kStopped,
                       effects := effects s @ Stop_effects closure s\<rparr>) \<and>
              Stop_effects closure s =
                Decryptor_DeinitializeDecoder #
                (case set_decryptor_ready_cb s of
                   None \<Rightarrow> []
                 | Some ready \<Rightarrow> [SetDecryptorReadyCB_Run ready NullDecryptorReadyCB]) @
                [DecodeCB_Run cb kAborted None, PostTask closure])
           \<and> (\<forall>c s'. step V c s = Inr s' \<longrightarrow>
                 s' = s \<or> (\<exists>w. c = Run_OnKeyAdded w \<and> OnKeyAdded s = Inr s')
                 \<or> (\<exists>cl. c = Call_Reset cl \<or> c = Call_Stop cl))" (is "_ \<longrightarrow> ?W")
  proof (intro impI)
    assume w: "state s = kWaitingForKey"
    from OnKeyAdded_WaitingForKey[OF inv w] obtain b where
      b: "pending_buffer_to_decode s = Some b"
        "OnKeyAdded s =
           Inr (emit (Decryptor_DecryptAndDecodeAudio b (buffer_size_of b) (weak_this s))
                  (s\<lparr>state := kPendingDecode\<rparr>))"
      by blast
    from Reset_WaitingForKey[OF inv w, of closure] obtain cb h where
      c: "decode_cb s = Some cb" "timestamp_helper s = Some h"
        "Reset closure s =
           Inr (emit (ResetCB_Run closure) (emit (DecodeCB_Run cb kAborted None)
                  (emit Decryptor_ResetDecoder
                     (s\<lparr>pending_buffer_to_decode := None, decode_cb := None,
                        timestamp_helper := Some (SetBaseTimestamp kNoTimestamp h),
                        state := kIdle, reset_cb := None\<rparr>))))"
      by blast
    have e: "Stop_effects closure s =
                Decryptor_DeinitializeDecoder #
                (case set_decryptor_ready_cb s of
                   None \<Rightarrow> []
                 | Some ready \<Rightarrow> [SetDecryptorReadyCB_Run ready NullDecryptorReadyCB]) @
                [DecodeCB_Run cb kAborted None, PostTask closure]"
      using Stop_WaitingForKey[OF inv w, of closure] c(1) by simp
    have st: "\<forall>c s'. step V c s = Inr s' \<longrightarrow>
                 s' = s \<or> (\<exists>w. c = Run_OnKeyAdded w \<and> OnKeyAdded s = Inr s')
                 \<or> (\<exists>cl. c = Call_Reset cl \<or> c = Call_Stop cl)"
      using step_WaitingForKey[OF inv w, of V] by blast
    show "?W" using b c e st Stop_result[of closure s] by blast
  qed
  have "decode_cb_account cb' s = decode_cb_account cb' (constructor r) + decode_calls cb' cs"
    using assms by (rule run_account)
  then have 5: "decode_cb_runs cb' s + decode_cb_pending cb' s = decode_calls cb' cs"
    by (simp add: constructor_account) (simp add: decode_cb_account_def)
  from 1 2 3 4 5 show ?thesis by blast
qed

theorem NoKey_retry_or_wait_witness:
  "\<exists>s sk s1 s2.
      run example_IsValidConfig example_calls (constructor (Some 0)) = Inr s \<and>
      state s = kPendingDecode \<and> reset_cb s = None \<and>
      pending_buffer_to_decode s = Some example_buffer \<and>
      step example_IsValidConfig (Run_OnKeyAdded (Some 0)) s = Inr sk \<and>
      sk = s\<lparr>key_added_while_decode_pending := True\<rparr> \<and>
      run example_IsValidConfig (example_calls @ [Run_OnKeyAdded (Some 0)])
        (constructor (Some 0)) = Inr sk \<and>
      DeliverFrame 0 kNoKey [] sk = Inr s1 \<and> state s1 = kPendingDecode \<and>
      key_added_while_decode_pending s1 = False \<and>
      decode_cb s1 = Some 2 \<and>
      effects s1 = effects s @ [Decryptor_DecryptAndDecodeAudio example_buffer 4 (Some 0)] \<and>
      DeliverFrame 0 kNoKey [] s = Inr s2 \<and> state s2 = kWaitingForKey \<and>
      effects s2 = effects s \<and>
      run example_IsValidConfig (example_calls @ [Run_DeliverFrame (Some 0) 0 kNoKey []])
        (constructor (Some 0)) = Inr s2 \<and>
      OnKeyAdded s2 =
        Inr (emit (Decryptor_DecryptAndDecodeAudio example_buffer 4 (Some 0))
               (s2\<lparr>state := kPendingDecode\<rparr>)) \<and>
      decode_cb_runs 2 s2 + decode_cb_pending 2 s2 = 1"
proof -
  obtain s where s: "run example_IsValidConfig example_calls (constructor (Some 0)) = Inr s"
      "state s = kPendingDecode" "reset_cb s = None" "\<not> key_added_while_decode_pending s"
      "weak_factory s = 0" "weak_this s = Some 0"
      "pending_buffer_to_decode s = Some example_buffer" "decode_cb s = Some 2"
    by (auto simp: example_defs method_defs Let_def)
  note at_s = NoKey_retry_or_wait[OF s(1), of 0 0 0]
  define sk where "sk = s\<lparr>key_added_while_decode_pending := True\<rparr>"
  define s1 where "s1 = emit (Decryptor_DecryptAndDecodeAudio example_buffer
      (buffer_size_of example_buffer) (weak_this s)) (s\<lparr>key_added_while_decode_pending := False\<rparr>)"
  define s2 where "s2 = s\<lparr>key_added_while_decode_pending := False, state := kWaitingForKey\<rparr>"
  have k: "OnKeyAdded s = Inr sk" using at_s s(2) by (simp add: sk_def)
  then have ks: "step example_IsValidConfig (Run_OnKeyAdded (Some 0)) s = Inr sk"
    using s(5) by (simp add: via_weak_ptr_def)
  then have rk: "run example_IsValidConfig (example_calls @ [Run_OnKeyAdded (Some 0)])
        (constructor (Some 0)) = Inr sk"
    using s(1) by (rule run_snoc_Inr[rotated])
  have d1: "DeliverFrame 0 kNoKey [] sk = Inr s1"
    using at_s s(2,3,7) by (auto simp: sk_def s1_def)
  have f1: "state s1 = kPendingDecode" "key_added_while_decode_pending s1 = False"
    "decode_cb s1 = Some 2"
    "effects s1 = effects s @ [Decryptor_DecryptAndDecodeAudio example_buffer 4 (Some 0)]"
    using s by (simp_all add: s1_def emit_def buffer_size_of_def example_buffer_def)
  have d2: "DeliverFrame 0 kNoKey [] s = Inr s2"
    using at_s s(2,3,4) by (auto simp: s2_def)
  have f2: "state s2 = kWaitingForKey" "effects s2 = effects s"
    by (simp_all add: s2_def)
  have "step example_IsValidConfig (Run_DeliverFrame (Some 0) 0 kNoKey []) s = Inr s2"
    using d2 s(5) by (simp add: via_weak_ptr_def)
  then have r2: "run example_IsValidConfig (example_calls @ [Run_DeliverFrame (Some 0) 0 kNoKey []])
        (constructor (Some 0)) = Inr s2"
    using s(1) by (rule run_snoc_Inr[rotated])
  note at_s2 = NoKey_retry_or_wait[OF r2, of 0 0 2]
  have k2: "OnKeyAdded s2 =
        Inr (emit (Decryptor_DecryptAndDecodeAudio example_buffer 4 (Some 0))
               (s2\<lparr>state := kPendingDecode\<rparr>))"
    using at_s2 f2(1) s(6,7)
    by (auto simp: s2_def buffer_size_of_def example_buffer_def)
  have a: "decode_cb_runs 2 s2 + decode_cb_pending 2 s2 = 1"
    using at_s2 by (simp add: decode_calls_def example_calls_def)
  show ?thesis
    by (rule exI[of _ s], rule exI[of _ sk], rule exI[of _ s1], rule exI[of _ s2])
       (use s(1,2,3,7) ks sk_def rk d1 f1 d2 f2 r2 k2 a in simp)
qed

text \<open>
  Claim C1 as given, that after a \<open>kNoKey\<close> response without the flag the decode callback
  is not invoked until a key arrival moves the state back to \<open>kPendingDecode\<close>, fails when
  the pipeline resets the decoder during the wait: the decoder waits in \<open>kWaitingForKey\<close>,
  the callback has not been run, no key arrives, and after \<open>Reset\<close> the callback has been
  run and the state is \<open>kIdle\<close>.
\<close>

theorem NoKey_wait_ended_by_Reset:
  "map_sum id state
     (run example_IsValidConfig (example_calls @ [Run_DeliverFrame (Some 0) 0 kNoKey []])
        (constructor (Some 0))) = Inr kWaitingForKey
   \<and> map_sum id (decode_cb_runs 2)
       (run example_IsValidConfig (example_calls @ [Run_DeliverFrame (Some 0) 0 kNoKey []])
          (constructor (Some 0))) = Inr 0
   \<and> filter is_key_arrival
       (example_calls @ [Run_DeliverFrame (Some 0) 0 kNoKey [], Call_Reset 5]) = []
   \<and> map_sum id (decode_cb_runs 2)
       (run example_IsValidConfig
          (example_calls @ [Run_DeliverFrame (Some 0) 0 kNoKey [], Call_Reset 5])
          (constructor (Some 0))) = Inr 1
   \<and> map_sum id state
       (run example_IsValidConfig
          (example_calls @ [Run_DeliverFrame (Some 0) 0 kNoKey [], Call_Reset 5])
          (constructor (Some 0))) = Inr kIdle"
  by (simp add: example_defs method_defs Let_def decode_cb_runs_def)

subsection \<open>A configuration that is refused\<close>

text \<open>
  Claim C6. When the configuration is invalid or not encrypted, and no decode or reset
  callback is pending (the method's own \<^verbatim>\<open>DCHECK\<close>s), \<open>Initialize\<close> returns having run its
  status callback exactly once, with \<open>PIPELINE_ERROR_DECODE\<close> for an invalid configuration and
  \<open>DECODER_ERROR_NOT_SUPPORTED\<close> for an unencrypted one. Nothing else is done: the
  set-decryptor-ready callback is not run and the decryptor is not called. The state and
  every other field stay as they were, apart from the weak pointer being taken anew and
  the init callback being empty.
\<close>

theorem Initialize_rejects_config:
  assumes "\<not> V cfg \<or> \<not> cfg_is_encrypted cfg" "decode_cb s = None" "reset_cb s = None"
  shows "Initialize V cfg cb s =
     Inr (s\<lparr>weak_this := Some (weak_factory s), init_cb := None,
            effects := effects s @
              [InitCB_Run cb (if \<not> V cfg then PIPELINE_ERROR_DECODE
                              else DECODER_ERROR_NOT_SUPPORTED)]\<rparr>)"
  using assms by (auto simp: Initialize_def ResetAndReturn_init_cb_def emit_def Let_def)

theorem Initialize_rejects_config_witness:
  "\<not> cfg_is_encrypted default_AudioDecoderConfig \<and>
   Initialize (\<lambda>c. True) default_AudioDecoderConfig 1 (constructor (Some 0)) =
     Inr ((constructor (Some 0))\<lparr>weak_this := Some 0, init_cb := None,
            effects := [InitCB_Run 1 DECODER_ERROR_NOT_SUPPORTED]\<rparr>) \<and>
   \<not> example_IsValidConfig default_AudioDecoderConfig \<and>
   Initialize example_IsValidConfig default_AudioDecoderConfig 1 (constructor (Some 0)) =
     Inr ((constructor (Some 0))\<lparr>weak_this := Some 0, init_cb := None,
            effects := [InitCB_Run 1 PIPELINE_ERROR_DECODE]\<rparr>)"
  using Initialize_rejects_config[of "\<lambda>c. True" default_AudioDecoderConfig "constructor (Some 0)" 1]
    Initialize_rejects_config[of example_IsValidConfig default_AudioDecoderConfig "constructor (Some 0)" 1]
  by (simp add: default_AudioDecoderConfig_def constructor_def example_IsValidConfig_def)

subsection \<open>A response asking for more data, and the end of the stream\<close>

lemma DeliverFrame_NeedMoreData:
  assumes "fields_inv s" "state s = kPendingDecode" "reset_cb s = None"
  shows "\<exists>cb b. decode_cb s = Some cb \<and> pending_buffer_to_decode s = Some b \<and>
     DeliverFrame n kNeedMoreData [] s =
       Inr (if db_end_of_stream b
            then emit (DecodeCB_Run cb kOk (Some CreateEOSBuffer))
                   (s\<lparr>key_added_while_decode_pending := False,
                      pending_buffer_to_decode := None, state := kDecodeFinished,
                      decode_cb := None\<rparr>)
            else emit (DecodeCB_Run cb kNotEnoughData None)
                   (s\<lparr>key_added_while_decode_pending := False,
                      pending_buffer_to_decode := None, state := kIdle,
                      decode_cb := None\<rparr>))"
  using assms
  by (auto simp: fields_inv_def DeliverFrame_def ResetAndReturn_decode_cb_def Let_def emit_def)

lemma Decode_DecodeFinished:
  assumes "fields_inv s" "state s = kDecodeFinished"
  shows "Decode buffer (Some cb) s =
     Inr (emit (DecodeCB_Run cb kOk (Some CreateEOSBuffer)) (s\<lparr>decode_cb := None\<rparr>))"
  using assms
  by (auto simp: fields_inv_def Decode_def ResetAndReturn_decode_cb_def Let_def emit_def)

text \<open>
  Claim C5. In every reachable state with a decode pending and no reset pending, a
  \<open>kNeedMoreData\<close> response to an end-of-stream buffer moves the state to \<open>kDecodeFinished\<close>
  and runs the decode callback with \<open>kOk\<close> and an end-of-stream frame; for any other buffer
  it moves the state to \<open>kIdle\<close> and runs the callback with \<open>kNotEnoughData\<close> and no frame.
  In every reachable state \<open>kDecodeFinished\<close>, \<open>Decode\<close> runs its callback at once with \<open>kOk\<close>
  and an end-of-stream frame, and does nothing else: the decryptor is not called.
\<close>

theorem NeedMoreData_and_DecodeFinished:
  assumes "run V cs (constructor r) = Inr s"
  shows "(state s = kPendingDecode \<and> reset_cb s = None \<longrightarrow>
          (\<exists>cb b. decode_cb s = Some cb \<and> pending_buffer_to_decode s = Some b \<and>
             DeliverFrame n kNeedMoreData [] s =
               Inr (if db_end_of_stream b
                    then emit (DecodeCB_Run cb kOk (Some CreateEOSBuffer))
                           (s\<lparr>key_added_while_decode_pending := False,
                              pending_buffer_to_decode := None, state := kDecodeFinished,
                              decode_cb := None\<rparr>)
                    else emit (DecodeCB_Run cb kNotEnoughData None)
                           (s\<lparr>key_added_while_decode_pending := False,
                              pending_buffer_to_decode := None, state := kIdle,
                              decode_cb := None\<rparr>))))
       \<and> (state s = kDecodeFinished \<longrightarrow>
            decode_cb s = None \<and>
            Decode buffer (Some cb') s =
              Inr (emit (DecodeCB_Run cb' kOk (Some CreateEOSBuffer)) (s\<lparr>decode_cb := None\<rparr>)))"
proof -
  have inv: "fields_inv s" using assms by (rule reachable_fields_inv)
  then have "state s = kDecodeFinished \<longrightarrow> decode_cb s = None"
    by (simp add: fields_inv_def)
  then show ?thesis
    using DeliverFrame_NeedMoreData[OF inv, of n] Decode_DecodeFinished[OF inv, of buffer cb']
    by blast
qed

theorem NeedMoreData_and_DecodeFinished_witness:
  "\<exists>s s1 s2. run example_IsValidConfig example_eos_calls (constructor (Some 0)) = Inr s \<and>
      state s = kPendingDecode \<and> reset_cb s = None \<and>
      pending_buffer_to_decode s = Some example_eos_buffer \<and>
      DeliverFrame 0 kNeedMoreData [] s = Inr s1 \<and> state s1 = kDecodeFinished \<and>
      effects s1 = effects s @ [DecodeCB_Run 2 kOk (Some CreateEOSBuffer)] \<and>
      run example_IsValidConfig (example_eos_calls @ [Run_DeliverFrame (Some 0) 0 kNeedMoreData []])
        (constructor (Some 0)) = Inr s1 \<and>
      Decode None (Some 3) s1 = Inr s2 \<and> state s2 = kDecodeFinished \<and>
      effects s2 = effects s1 @ [DecodeCB_Run 3 kOk (Some CreateEOSBuffer)]"
proof -
  obtain s where s: "run example_IsValidConfig example_eos_calls (constructor (Some 0)) = Inr s"
    "state s = kPendingDecode" "reset_cb s = None"
    "pending_buffer_to_decode s = Some example_eos_buffer" "decode_cb s = Some 2"
    "weak_factory s = 0"
    by (auto simp: example_defs example_eos_calls_def example_eos_buffer_def method_defs Let_def)
  obtain s1 where s1: "DeliverFrame 0 kNeedMoreData [] s = Inr s1" "state s1 = kDecodeFinished"
      "effects s1 = effects s @ [DecodeCB_Run 2 kOk (Some CreateEOSBuffer)]"
    using NeedMoreData_and_DecodeFinished[OF s(1), of 0] s(2,3,4,5)
    by (auto simp: example_eos_buffer_def emit_def)
  have "step example_IsValidConfig (Run_DeliverFrame (Some 0) 0 kNeedMoreData []) s = Inr s1"
    using s1(1) s(6) by (simp add: via_weak_ptr_def)
  then have r1: "run example_IsValidConfig
      (example_eos_calls @ [Run_DeliverFrame (Some 0) 0 kNeedMoreData []]) (constructor (Some 0)) = Inr s1"
    using s(1) by (rule run_snoc_Inr[rotated])
  obtain s2 where s2: "Decode None (Some 3) s1 = Inr s2" "state s2 = kDecodeFinished"
      "effects s2 = effects s1 @ [DecodeCB_Run 3 kOk (Some CreateEOSBuffer)]"
    using NeedMoreData_and_DecodeFinished[OF r1, of 0 None 3] s1(2)
    by (auto simp: emit_def)
  show ?thesis using s s1 r1 s2 by blast
qed

subsection \<open>A reset while a decode is pending\<close>

lemma Reset_PendingDecode:
  assumes "fields_inv s" "state s = kPendingDecode" "reset_cb s = None"
  shows "Reset closure s = Inr (emit Decryptor_ResetDecoder (s\<lparr>reset_cb := Some closure\<rparr>))"
  using assms by (auto simp: fields_inv_def Reset_def Let_def emit_def)

lemma DeliverFrame_reset_pending:
  assumes "fields_inv s" "state s = kPendingDecode" "reset_cb s = Some closure"
  shows "\<exists>cb h. decode_cb s = Some cb \<and> timestamp_helper s = Some h \<and>
     DeliverFrame n st frames s =
       Inr (emit (ResetCB_Run closure) (emit (DecodeCB_Run cb kAborted None)
              (s\<lparr>key_added_while_decode_pending := False, pending_buffer_to_decode := None,
                 decode_cb := None,
                 timestamp_helper := Some (SetBaseTimestamp kNoTimestamp h),
                 state := kIdle, reset_cb := None\<rparr>)))"
  using assms
  by (auto simp: fields_inv_def DeliverFrame_def DoReset_def ResetAndReturn_decode_cb_def
      ResetAndReturn_reset_cb_def and_then_def Let_def emit_def)

lemma Decode_reseeds:
  assumes "state s = kIdle" "decode_cb s = None" "queued_audio_frames s = []"
    "timestamp_helper s = Some h" "ath_base_timestamp h = kNoTimestamp"
    "decryptor s \<noteq> None" "\<not> db_end_of_stream b"
  shows "Decode (Some b) (Some cb) s =
     Inr (emit (Decryptor_DecryptAndDecodeAudio b (buffer_size_of b) (weak_this s))
            (s\<lparr>decode_cb := Some cb,
               timestamp_helper := Some (SetBaseTimestamp (db_timestamp b) h),
               pending_buffer_to_decode := Some b, state := kPendingDecode\<rparr>))"
  using assms
  by (auto simp: Decode_def DecodePendingBuffer_def Let_def emit_def)

lemma step_PendingDecode:
  assumes "fields_inv s" "state s = kPendingDecode" "step V c s = Inr s'"
  shows "effects s' = effects s \<and> reset_cb s' = reset_cb s \<and> state s' = kPendingDecode
       \<or> (\<exists>w n st frames. c = Run_DeliverFrame w n st frames)
       \<or> (\<exists>closure. c = Call_Reset closure \<or> c = Call_Stop closure)"
proof (cases c)
  case (Call_Initialize cfg cb0)
  with assms show ?thesis by (auto simp: Initialize_def fields_inv_def)
next
  case (Call_Decode buffer cbo)
  with assms show ?thesis by (auto simp: Decode_def)
next
  case Call_GetDecodeOutput
  with assms show ?thesis by (auto simp: snd_GetDecodeOutput fields_inv_def)
next
  case (Call_Reset closure)
  then show ?thesis by simp
next
  case (Call_Stop closure)
  then show ?thesis by simp
next
  case (Run_SetDecryptor w d)
  with assms show ?thesis by (auto elim!: via_weak_ptr_cases simp: SetDecryptor_def)
next
  case (Run_FinishInitialization w ok)
  with assms show ?thesis by (auto elim!: via_weak_ptr_cases simp: FinishInitialization_def)
next
  case (Run_DeliverFrame w n st frames)
  then show ?thesis by simp
next
  case (Run_OnKeyAdded w)
  with assms show ?thesis by (auto elim!: via_weak_ptr_cases simp: OnKeyAdded_def)
qed

text \<open>
  Claim C2. In every reachable state \<open>kPendingDecode\<close>: \<open>Reset\<close> only stores its callback and
  resets the decryptor's decoder, the reset callback is not run; until the response is
  delivered no accepted event other than \<open>Stop\<close> runs anything. When the response arrives
  with the reset pending, whatever its status and frames, the decode callback is run with
  \<open>kAborted\<close> and no frame, the pending buffer is dropped, and then the reset callback is
  run; the state is \<open>kIdle\<close> and the base timestamp is \<^verbatim>\<open>kNoTimestamp()\<close>, so that the next
  buffer that is not end-of-stream seeds it with its own timestamp.
\<close>

theorem Reset_during_pending_decode:
  assumes "run V cs (constructor r) = Inr s" "state s = kPendingDecode"
  shows "(reset_cb s = None \<longrightarrow>
           Reset closure s = Inr (emit Decryptor_ResetDecoder (s\<lparr>reset_cb := Some closure\<rparr>)))
       \<and> (\<forall>c s'. step V c s = Inr s' \<longrightarrow>
             effects s' = effects s \<and> reset_cb s' = reset_cb s \<and> state s' = kPendingDecode
             \<or> (\<exists>w k st' fs. c = Run_DeliverFrame w k st' fs)
             \<or> (\<exists>cl. c = Call_Reset cl \<or> c = Call_Stop cl))
       \<and> (reset_cb s = Some closure \<longrightarrow>
           (\<exists>cb h s'. decode_cb s = Some cb \<and> timestamp_helper s = Some h \<and>
              DeliverFrame n st frames s = Inr s' \<and>
              s' = emit (ResetCB_Run closure) (emit (DecodeCB_Run cb kAborted None)
                     (s\<lparr>key_added_while_decode_pending := False,
                        pending_buffer_to_decode := None, decode_cb := None,
                        timestamp_helper := Some (SetBaseTimestamp kNoTimestamp h),
                        state := kIdle, reset_cb := None\<rparr>)) \<and>
              (\<not> db_end_of_stream b \<longrightarrow>
                 Decode (Some b) (Some cb2) s' =
                   Inr (emit (Decryptor_DecryptAndDecodeAudio b (buffer_size_of b) (weak_this s'))
                          (s'\<lparr>decode_cb := Some cb2,
                              timestamp_helper :=
                                Some (SetBaseTimestamp (db_timestamp b)
                                        (SetBaseTimestamp kNoTimestamp h)),
                              pending_buffer_to_decode := Some b, state := kPendingDecode\<rparr>)))))"
proof -
  have inv: "fields_inv s" using assms(1) by (rule reachable_fields_inv)
  have 1: "reset_cb s = None \<longrightarrow>
           Reset closure s = Inr (emit Decryptor_ResetDecoder (s\<lparr>reset_cb := Some closure\<rparr>))"
    using Reset_PendingDecode[OF inv assms(2)] by simp
  have 0: "\<forall>c s'. step V c s = Inr s' \<longrightarrow>
             effects s' = effects s \<and> reset_cb s' = reset_cb s \<and> state s' = kPendingDecode
             \<or> (\<exists>w k st' fs. c = Run_DeliverFrame w k st' fs)
             \<or> (\<exists>cl. c = Call_Reset cl \<or> c = Call_Stop cl)"
    using step_PendingDecode[OF inv assms(2), of V] by blast
  have 2: "?thesis" if rc: "reset_cb s = Some closure"
  proof -
    obtain cb h where d: "decode_cb s = Some cb" "timestamp_helper s = Some h"
      "DeliverFrame n st frames s =
       Inr (emit (ResetCB_Run closure) (emit (DecodeCB_Run cb kAborted None)
              (s\<lparr>key_added_while_decode_pending := False, pending_buffer_to_decode := None,
                 decode_cb := None,
                 timestamp_helper := Some (SetBaseTimestamp kNoTimestamp h),
                 state := kIdle, reset_cb := None\<rparr>)))"
      using DeliverFrame_reset_pending[OF inv assms(2) rc, of n st frames] by blast
    define s' where "s' = emit (ResetCB_Run closure) (emit (DecodeCB_Run cb kAborted None)
              (s\<lparr>key_added_while_decode_pending := False, pending_buffer_to_decode := None,
                 decode_cb := None,
                 timestamp_helper := Some (SetBaseTimestamp kNoTimestamp h),
                 state := kIdle, reset_cb := None\<rparr>))"
    have q: "queued_audio_frames s = []" "decryptor s \<noteq> None"
      using inv assms(2) by (simp_all add: fields_inv_def)
    have f: "state s' = kIdle" "decode_cb s' = None" "queued_audio_frames s' = []"
      "timestamp_helper s' = Some (SetBaseTimestamp kNoTimestamp h)"
      "ath_base_timestamp (SetBaseTimestamp kNoTimestamp h) = kNoTimestamp"
      "decryptor s' \<noteq> None"
      using q by (simp_all add: s'_def emit_def SetBaseTimestamp_def)
    have "\<not> db_end_of_stream b \<longrightarrow>
                 Decode (Some b) (Some cb2) s' =
                   Inr (emit (Decryptor_DecryptAndDecodeAudio b (buffer_size_of b) (weak_this s'))
                          (s'\<lparr>decode_cb := Some cb2,
                              timestamp_helper :=
                                Some (SetBaseTimestamp (db_timestamp b)
                                        (SetBaseTimestamp kNoTimestamp h)),
                              pending_buffer_to_decode := Some b, state := kPendingDecode\<rparr>))"
      using Decode_reseeds[OF f] by simp
    then show ?thesis using 0 d rc unfolding s'_def by auto
  qed
  show ?thesis
  proof (cases "reset_cb s = Some closure")
    case True
    then show ?thesis by (rule 2)
  next
    case False
    then show ?thesis using 0 1 by simp
  qed
qed

theorem Reset_during_pending_decode_witness:
  "\<exists>s s1 s2 s3 h h3. run example_IsValidConfig example_calls (constructor (Some 0)) = Inr s \<and>
      state s = kPendingDecode \<and> reset_cb s = None \<and>
      Reset 5 s = Inr s1 \<and> effects s1 = effects s @ [Decryptor_ResetDecoder] \<and>
      run example_IsValidConfig (example_calls @ [Call_Reset 5]) (constructor (Some 0)) = Inr s1 \<and>
      state s1 = kPendingDecode \<and> reset_cb s1 = Some 5 \<and>
      DeliverFrame 0 kSuccess [example_frame] s1 = Inr s2 \<and>
      effects s2 = effects s1 @ [DecodeCB_Run 2 kAborted None, ResetCB_Run 5] \<and>
      state s2 = kIdle \<and> pending_buffer_to_decode s2 = None \<and>
      timestamp_helper s2 = Some h \<and> ath_base_timestamp h = kNoTimestamp \<and>
      Decode (Some example_buffer) (Some 3) s2 = Inr s3 \<and>
      timestamp_helper s3 = Some h3 \<and> ath_base_timestamp h3 = Some 0"
proof -
  obtain s where s: "run example_IsValidConfig example_calls (constructor (Some 0)) = Inr s"
    "state s = kPendingDecode" "reset_cb s = None" "decode_cb s = Some 2"
    by (auto simp: example_defs method_defs Let_def)
  define s1 where "s1 = emit Decryptor_ResetDecoder (s\<lparr>reset_cb := Some 5\<rparr>)"
  have r: "Reset 5 s = Inr s1"
    using Reset_during_pending_decode[OF s(1,2), of 5] s(3) by (simp add: s1_def)
  have e1: "effects s1 = effects s @ [Decryptor_ResetDecoder]" "state s1 = kPendingDecode"
    "reset_cb s1 = Some 5" "decode_cb s1 = Some 2"
    using s by (simp_all add: s1_def emit_def)
  have "step example_IsValidConfig (Call_Reset 5) s = Inr s1" using r by simp
  then have r1: "run example_IsValidConfig (example_calls @ [Call_Reset 5]) (constructor (Some 0)) = Inr s1"
    using s(1) by (rule run_snoc_Inr[rotated])
  have nb: "\<not> db_end_of_stream example_buffer" by (simp add: example_buffer_def)
  obtain h s2 where s2: "timestamp_helper s1 = Some h"
     "DeliverFrame 0 kSuccess [example_frame] s1 = Inr s2"
     "s2 = emit (ResetCB_Run 5) (emit (DecodeCB_Run 2 kAborted None)
                     (s1\<lparr>key_added_while_decode_pending := False,
                        pending_buffer_to_decode := None, decode_cb := None,
                        timestamp_helper := Some (SetBaseTimestamp kNoTimestamp h),
                        state := kIdle, reset_cb := None\<rparr>))"
     "Decode (Some example_buffer) (Some 3) s2 =
        Inr (emit (Decryptor_DecryptAndDecodeAudio example_buffer (buffer_size_of example_buffer)
                     (weak_this s2))
               (s2\<lparr>decode_cb := Some 3,
                   timestamp_helper :=
                     Some (SetBaseTimestamp (db_timestamp example_buffer)
                             (SetBaseTimestamp kNoTimestamp h)),
                   pending_buffer_to_decode := Some example_buffer, state := kPendingDecode\<rparr>))"
    using Reset_during_pending_decode[OF r1 e1(2),
        of 5 0 kSuccess "[example_frame]" example_buffer 3] e1(3,4) nb
    by auto
  have "effects s2 = effects s1 @ [DecodeCB_Run 2 kAborted None, ResetCB_Run 5]"
    "state s2 = kIdle" "pending_buffer_to_decode s2 = None"
    "timestamp_helper s2 = Some (SetBaseTimestamp kNoTimestamp h)"
    "ath_base_timestamp (SetBaseTimestamp kNoTimestamp h) = kNoTimestamp"
    by (simp_all add: s2(3) emit_def SetBaseTimestamp_def)
  moreover have "\<exists>s3 h3. Decode (Some example_buffer) (Some 3) s2 = Inr s3 \<and>
      timestamp_helper s3 = Some h3 \<and> ath_base_timestamp h3 = Some 0"
    unfolding s2(4) by (simp add: emit_def SetBaseTimestamp_def example_buffer_def)
  ultimately show ?thesis using s r e1 r1 s2(2) by blast
qed

subsection \<open>The sample format handed to the decryptor\<close>

lemmas config_inv_defs = config_inv_def reports_config_def emit_def

lemma constructor_config_inv: "config_inv (constructor r)"
  by (simp add: config_inv_defs constructor_def)

lemma Initialize_config_inv:
  "Initialize V cfg cb0 s = Inr s' \<Longrightarrow> config_inv s \<Longrightarrow> config_inv s'"
  by (auto simp: Initialize_def Let_def Inr_simps config_inv_defs
        AudioDecoderConfig_Initialize_def split: if_split_asm option.splits)

lemma Decode_config_inv:
  "Decode buffer cbo s = Inr s' \<Longrightarrow> config_inv s \<Longrightarrow> config_inv s'"
  by (auto simp: Decode_def Let_def Inr_simps config_inv_defs split: if_split_asm option.splits)

lemma Reset_config_inv:
  "Reset closure s = Inr s' \<Longrightarrow> config_inv s \<Longrightarrow> config_inv s'"
  by (auto simp: Reset_def Let_def Inr_simps config_inv_defs split: if_split_asm option.splits)

lemma Stop_effects_forces_S16: "list_all forces_S16 (Stop_effects closure s)"
  by (simp add: Stop_effects_def split: option.splits)

lemma Stop_config_inv:
  "Stop closure s = Inr s' \<Longrightarrow> config_inv s \<Longrightarrow> config_inv s'"
  by (auto simp: Stop_result config_inv_def reports_config_def Stop_effects_forces_S16)

lemma SetDecryptor_config_inv:
  "SetDecryptor d s = Inr s' \<Longrightarrow> config_inv s \<Longrightarrow> config_inv s'"
  by (auto simp: SetDecryptor_def Let_def Inr_simps config_inv_defs
        AudioDecoderConfig_Initialize_def split: if_split_asm option.splits)

lemma FinishInitialization_config_inv:
  "FinishInitialization ok s = Inr s' \<Longrightarrow> config_inv s \<Longrightarrow> config_inv s'"
  by (auto simp: FinishInitialization_def UpdateDecoderConfig_def kSupportedBitsPerChannel_def
        Let_def Inr_simps config_inv_defs split: if_split_asm option.splits)

lemma DeliverFrame_config_inv:
  "DeliverFrame n st frames s = Inr s' \<Longrightarrow> config_inv s \<Longrightarrow> config_inv s'"
  by (auto simp: DeliverFrame_def Let_def Inr_simps config_inv_defs split: if_split_asm option.splits)

lemma OnKeyAdded_config_inv:
  "OnKeyAdded s = Inr s' \<Longrightarrow> config_inv s \<Longrightarrow> config_inv s'"
  by (auto simp: OnKeyAdded_def Let_def Inr_simps config_inv_defs split: if_split_asm option.splits)

lemma step_config_inv:
  assumes "step V c s = Inr s'" "config_inv s"
  shows "config_inv s'"
proof (cases c)
  case (Call_Initialize cfg cb0)
  with assms(1) have "Initialize V cfg cb0 s = Inr s'" by simp
  then show ?thesis using assms(2) by (rule Initialize_config_inv)
next
  case (Call_Decode buffer cbo)
  with assms(1) have "Decode buffer cbo s = Inr s'" by simp
  then show ?thesis using assms(2) by (rule Decode_config_inv)
next
  case Call_GetDecodeOutput
  with assms(1) have "s' = s\<lparr>queued_audio_frames := tl (queued_audio_frames s)\<rparr>"
    by (simp add: snd_GetDecodeOutput)
  then show ?thesis using assms(2) by (auto simp: config_inv_defs)
next
  case (Call_Reset closure)
  with assms(1) have "Reset closure s = Inr s'" by simp
  then show ?thesis using assms(2) by (rule Reset_config_inv)
next
  case (Call_Stop closure)
  with assms(1) have "Stop closure s = Inr s'" by simp
  then show ?thesis using assms(2) by (rule Stop_config_inv)
next
  case (Run_SetDecryptor w d)
  with assms(1) have "via_weak_ptr w (SetDecryptor d) s = Inr s'" by simp
  then show ?thesis using assms(2)
    by (cases rule: via_weak_ptr_cases) (auto intro: SetDecryptor_config_inv)
next
  case (Run_FinishInitialization w ok)
  with assms(1) have "via_weak_ptr w (FinishInitialization ok) s = Inr s'" by simp
  then show ?thesis using assms(2)
    by (cases rule: via_weak_ptr_cases) (auto intro: FinishInitialization_config_inv)
next
  case (Run_DeliverFrame w n st frames)
  with assms(1) have "via_weak_ptr w (DeliverFrame n st frames) s = Inr s'" by simp
  then show ?thesis using assms(2)
    by (cases rule: via_weak_ptr_cases) (auto intro: DeliverFrame_config_inv)
next
  case (Run_OnKeyAdded w)
  with assms(1) have "via_weak_ptr w OnKeyAdded s = Inr s'" by simp
  then show ?thesis using assms(2)
    by (cases rule: via_weak_ptr_cases) (auto intro: OnKeyAdded_config_inv)
qed

lemma run_config_inv:
  "run V cs s = Inr s' \<Longrightarrow> config_inv s \<Longrightarrow> config_inv s'"
  by (induction cs arbitrary: s)
     (auto simp: run_Cons_Inr simp del: run.simps(2) dest: step_config_inv)

text \<open>Which configuration the decoder holds after a step.\<close>

lemma Initialize_config:
  "Initialize V cfg cb0 s = Inr s' \<Longrightarrow>
   same_layout_and_rate (config s') (if V cfg \<and> cfg_is_encrypted cfg then cfg else config s)"
  by (auto simp: Initialize_def Let_def Inr_simps emit_def same_layout_and_rate_def
        AudioDecoderConfig_Initialize_def split: if_split_asm option.splits)

lemma Decode_config: "Decode buffer cbo s = Inr s' \<Longrightarrow> config s' = config s"
  by (auto simp: Decode_def Let_def Inr_simps emit_def split: if_split_asm option.splits)

lemma Reset_config: "Reset closure s = Inr s' \<Longrightarrow> config s' = config s"
  by (auto simp: Reset_def Let_def Inr_simps emit_def split: if_split_asm option.splits)

lemma Stop_config: "Stop closure s = Inr s' \<Longrightarrow> config s' = config s"
  by (auto simp: Stop_result)

lemma SetDecryptor_config:
  "SetDecryptor d s = Inr s' \<Longrightarrow> same_layout_and_rate (config s') (config s)"
  by (auto simp: SetDecryptor_def Let_def Inr_simps emit_def same_layout_and_rate_def
        AudioDecoderConfig_Initialize_def split: if_split_asm option.splits)

lemma FinishInitialization_config:
  "FinishInitialization ok s = Inr s' \<Longrightarrow> config s' = config s"
  by (auto simp: FinishInitialization_def UpdateDecoderConfig_def Let_def Inr_simps emit_def
        split: if_split_asm option.splits)

lemma DeliverFrame_config: "DeliverFrame n st frames s = Inr s' \<Longrightarrow> config s' = config s"
  by (auto simp: DeliverFrame_def Let_def Inr_simps emit_def split: if_split_asm option.splits)

lemma OnKeyAdded_config: "OnKeyAdded s = Inr s' \<Longrightarrow> config s' = config s"
  by (auto simp: OnKeyAdded_def Let_def Inr_simps emit_def split: if_split_asm option.splits)

lemma same_layout_and_rate_refl: "same_layout_and_rate a a"
  by (simp add: same_layout_and_rate_def)

lemma step_config:
  assumes "step V c s = Inr s'"
  shows "same_layout_and_rate (config s') (supplied_config V [c] (config s))"
proof (cases c)
  case (Call_Initialize cfg cb0)
  with assms show ?thesis using Initialize_config[of V cfg cb0 s s'] by simp
next
  case (Call_Decode buffer cbo)
  with assms show ?thesis using Decode_config[of buffer cbo s s']
    by (simp add: same_layout_and_rate_refl)
next
  case Call_GetDecodeOutput
  with assms show ?thesis by (auto simp: snd_GetDecodeOutput same_layout_and_rate_refl)
next
  case (Call_Reset closure)
  with assms show ?thesis using Reset_config[of closure s s']
    by (simp add: same_layout_and_rate_refl)
next
  case (Call_Stop closure)
  with assms show ?thesis using Stop_config[of closure s s']
    by (simp add: same_layout_and_rate_refl)
next
  case (Run_SetDecryptor w d)
  with assms have "via_weak_ptr w (SetDecryptor d) s = Inr s'" by simp
  then show ?thesis using Run_SetDecryptor
    by (cases rule: via_weak_ptr_cases)
       (auto simp: same_layout_and_rate_refl dest: SetDecryptor_config)
next
  case (Run_FinishInitialization w ok)
  with assms have "via_weak_ptr w (FinishInitialization ok) s = Inr s'" by simp
  then show ?thesis using Run_FinishInitialization
    by (cases rule: via_weak_ptr_cases)
       (auto simp: same_layout_and_rate_refl dest: FinishInitialization_config)
next
  case (Run_DeliverFrame w n st frames)
  with assms have "via_weak_ptr w (DeliverFrame n st frames) s = Inr s'" by simp
  then show ?thesis using Run_DeliverFrame
    by (cases rule: via_weak_ptr_cases)
       (auto simp: same_layout_and_rate_refl dest: DeliverFrame_config)
next
  case (Run_OnKeyAdded w)
  with assms have "via_weak_ptr w OnKeyAdded s = Inr s'" by simp
  then show ?thesis using Run_OnKeyAdded
    by (cases rule: via_weak_ptr_cases)
       (auto simp: same_layout_and_rate_refl dest: OnKeyAdded_config)
qed

lemma supplied_config_Cons:
  "supplied_config V (c # cs) c0 = supplied_config V cs (supplied_config V [c] c0)"
  by (cases c) simp_all

lemma supplied_config_cong:
  "same_layout_and_rate a b \<Longrightarrow>
   same_layout_and_rate (supplied_config V cs a) (supplied_config V cs b)"
proof (induction cs arbitrary: a b)
  case Nil
  then show ?case by simp
next
  case (Cons c cs)
  have "same_layout_and_rate (supplied_config V [c] a) (supplied_config V [c] b)"
    using Cons.prems by (cases c) (simp_all add: same_layout_and_rate_def)
  then show ?case using Cons.IH supplied_config_Cons[of V c cs] by metis
qed

lemma run_config:
  "run V cs s = Inr s' \<Longrightarrow>
   same_layout_and_rate (config s') (supplied_config V cs (config s))"
proof (induction cs arbitrary: s)
  case Nil
  then show ?case by (simp add: same_layout_and_rate_refl)
next
  case (Cons c cs)
  then obtain s1 where s1: "step V c s = Inr s1" "run V cs s1 = Inr s'"
    by (auto simp: run_Cons_Inr simp del: run.simps(2))
  have "same_layout_and_rate (supplied_config V cs (config s1))
          (supplied_config V cs (supplied_config V [c] (config s)))"
    using step_config[OF s1(1)] by (rule supplied_config_cong)
  then show ?case using Cons.IH[OF s1(2)] supplied_config_Cons[of V c cs "config s"]
    by (simp add: same_layout_and_rate_def)
qed

lemma decoder_inits_simps:
  "decoder_inits [] = []"
  "decoder_inits (e # es) = decoder_init_of e @ decoder_inits es"
  by (simp_all add: decoder_inits_def)

lemma last_decoder_init_append:
  "last_decoder_init (es @ fs) =
     (if decoder_inits fs = [] then last_decoder_init es else Some (last (decoder_inits fs)))"
  by (simp add: last_decoder_init_def decoder_inits_def)

lemma S16_config:
  "AudioDecoderConfig_Initialize (cfg_codec c) kSampleFormatS16 (cfg_channel_layout c)
     (cfg_samples_per_second c) (cfg_extra_data c) (length (cfg_extra_data c))
     (cfg_is_encrypted c) False 0 0 =
   c\<lparr>cfg_sample_format := kSampleFormatS16, cfg_seek_preroll := 0, cfg_codec_delay := 0\<rparr>"
  by (simp add: AudioDecoderConfig_Initialize_def)

lemmas decoder_init_defs = decoder_init_inv_def emit_def last_decoder_init_append
  decoder_inits_simps AudioDecoderConfig_Initialize_def

lemma constructor_decoder_init_inv: "decoder_init_inv (constructor r)"
  by (simp add: decoder_init_inv_def constructor_def)

lemma Initialize_decoder_init_inv:
  "Initialize V cfg cb0 s = Inr s' \<Longrightarrow> decoder_init_inv s \<Longrightarrow> decoder_init_inv s'"
  by (auto simp: Initialize_def Let_def Inr_simps decoder_init_defs
        split: if_split_asm option.splits)

lemma Decode_decoder_init_inv:
  "Decode buffer cbo s = Inr s' \<Longrightarrow> decoder_init_inv s \<Longrightarrow> decoder_init_inv s'"
  by (auto simp: Decode_def Let_def Inr_simps decoder_init_defs split: if_split_asm option.splits)

lemma Reset_decoder_init_inv:
  "Reset closure s = Inr s' \<Longrightarrow> decoder_init_inv s \<Longrightarrow> decoder_init_inv s'"
  by (auto simp: Reset_def Let_def Inr_simps decoder_init_defs split: if_split_asm option.splits)

lemma Stop_decoder_init_inv:
  "Stop closure s = Inr s' \<Longrightarrow> decoder_init_inv s'"
  by (auto simp: Stop_result decoder_init_inv_def)

lemma SetDecryptor_decoder_init_inv:
  "SetDecryptor d s = Inr s' \<Longrightarrow> decoder_init_inv s \<Longrightarrow> decoder_init_inv s'"
  by (auto simp: SetDecryptor_def Let_def Inr_simps decoder_init_defs
        split: if_split_asm option.splits)

lemma FinishInitialization_decoder_init_inv:
  "FinishInitialization ok s = Inr s' \<Longrightarrow> decoder_init_inv s \<Longrightarrow> decoder_init_inv s'"
  by (auto simp: FinishInitialization_def UpdateDecoderConfig_def Let_def Inr_simps
        decoder_init_defs split: if_split_asm option.splits)

lemma DeliverFrame_decoder_init_inv:
  "DeliverFrame n st frames s = Inr s' \<Longrightarrow> decoder_init_inv s \<Longrightarrow> decoder_init_inv s'"
  by (auto simp: DeliverFrame_def Let_def Inr_simps decoder_init_defs
        split: if_split_asm option.splits)

lemma OnKeyAdded_decoder_init_inv:
  "OnKeyAdded s = Inr s' \<Longrightarrow> decoder_init_inv s \<Longrightarrow> decoder_init_inv s'"
  by (auto simp: OnKeyAdded_def Let_def Inr_simps decoder_init_defs
        split: if_split_asm option.splits)

lemma step_decoder_init_inv:
  assumes "step V c s = Inr s'" "decoder_init_inv s"
  shows "decoder_init_inv s'"
proof (cases c)
  case (Call_Initialize cfg cb0)
  with assms(1) have "Initialize V cfg cb0 s = Inr s'" by simp
  then show ?thesis using assms(2) by (rule Initialize_decoder_init_inv)
next
  case (Call_Decode buffer cbo)
  with assms(1) have "Decode buffer cbo s = Inr s'" by simp
  then show ?thesis using assms(2) by (rule Decode_decoder_init_inv)
next
  case Call_GetDecodeOutput
  with assms(1) have "s' = s\<lparr>queued_audio_frames := tl (queued_audio_frames s)\<rparr>"
    by (simp add: snd_GetDecodeOutput)
  then show ?thesis using assms(2) by (simp add: decoder_init_inv_def)
next
  case (Call_Reset closure)
  with assms(1) have "Reset closure s = Inr s'" by simp
  then show ?thesis using assms(2) by (rule Reset_decoder_init_inv)
next
  case (Call_Stop closure)
  with assms(1) have "Stop closure s = Inr s'" by simp
  then show ?thesis by (rule Stop_decoder_init_inv)
next
  case (Run_SetDecryptor w d)
  with assms(1) have "via_weak_ptr w (SetDecryptor d) s = Inr s'" by simp
  then show ?thesis using assms(2)
    by (cases rule: via_weak_ptr_cases) (auto intro: SetDecryptor_decoder_init_inv)
next
  case (Run_FinishInitialization w ok)
  with assms(1) have "via_weak_ptr w (FinishInitialization ok) s = Inr s'" by simp
  then show ?thesis using assms(2)
    by (cases rule: via_weak_ptr_cases) (auto intro: FinishInitialization_decoder_init_inv)
next
  case (Run_DeliverFrame w n st frames)
  with assms(1) have "via_weak_ptr w (DeliverFrame n st frames) s = Inr s'" by simp
  then show ?thesis using assms(2)
    by (cases rule: via_weak_ptr_cases) (auto intro: DeliverFrame_decoder_init_inv)
next
  case (Run_OnKeyAdded w)
  with assms(1) have "via_weak_ptr w OnKeyAdded s = Inr s'" by simp
  then show ?thesis using assms(2)
    by (cases rule: via_weak_ptr_cases) (auto intro: OnKeyAdded_decoder_init_inv)
qed

lemma run_decoder_init_inv:
  "run V cs s = Inr s' \<Longrightarrow> decoder_init_inv s \<Longrightarrow> decoder_init_inv s'"
  by (induction cs arbitrary: s)
     (auto simp: run_Cons_Inr simp del: run.simps(2) dest: step_decoder_init_inv)

text \<open>The three steps of an initialization, each with its exact result.\<close>

lemma SetDecryptor_initializes_decoder:
  assumes "state s = kDecryptorRequested" "init_cb s \<noteq> None" "set_decryptor_ready_cb s \<noteq> None"
  shows "SetDecryptor (Some d) s =
     Inr (emit (Decryptor_InitializeAudioDecoder
                  ((config s)\<lparr>cfg_sample_format := kSampleFormatS16, cfg_seek_preroll := 0,
                     cfg_codec_delay := 0\<rparr>) (weak_this s))
            (s\<lparr>set_decryptor_ready_cb := None, decryptor := Some d,
               config := (config s)\<lparr>cfg_sample_format := kSampleFormatS16,
                           cfg_seek_preroll := 0, cfg_codec_delay := 0\<rparr>,
               state := kPendingDecoderInit\<rparr>))"
  using assms by (simp add: SetDecryptor_def InitializeDecoder_def Let_def emit_def S16_config)

lemma Initialize_reinitializes_decoder:
  assumes "V cfg" "cfg_is_encrypted cfg" "decode_cb s = None" "reset_cb s = None"
    "state s \<noteq> kUninitialized" "decryptor s \<noteq> None"
  shows "Initialize V cfg cb s =
     Inr (emit (Decryptor_InitializeAudioDecoder
                  (cfg\<lparr>cfg_sample_format := kSampleFormatS16, cfg_seek_preroll := 0,
                     cfg_codec_delay := 0\<rparr>) (Some (weak_factory s)))
            (emit Decryptor_DeinitializeDecoder
               (s\<lparr>weak_this := Some (weak_factory s), init_cb := Some cb,
                  config := cfg\<lparr>cfg_sample_format := kSampleFormatS16, cfg_seek_preroll := 0,
                              cfg_codec_delay := 0\<rparr>,
                  state := kPendingDecoderInit\<rparr>)))"
  using assms S16_config[of cfg]
  by (auto simp: Initialize_def InitializeDecoder_def Let_def emit_def)

lemma Initialize_requests_decryptor:
  assumes "V cfg" "cfg_is_encrypted cfg" "decode_cb s = None" "reset_cb s = None"
    "state s = kUninitialized" "set_decryptor_ready_cb s = Some ready"
  shows "Initialize V cfg cb s =
     Inr (emit (SetDecryptorReadyCB_Run ready (Bind_SetDecryptor (Some (weak_factory s))))
            (s\<lparr>weak_this := Some (weak_factory s), init_cb := Some cb, config := cfg,
               state := kDecryptorRequested\<rparr>))"
  using assms by (simp add: Initialize_def Let_def emit_def)

lemma FinishInitialization_reports:
  assumes "state s = kPendingDecoderInit" "init_cb s = Some cb" "reset_cb s = None"
    "decode_cb s = None" "decryptor s \<noteq> None"
  shows "FinishInitialization True s =
     Inr (emit (InitCB_Run cb PIPELINE_OK)
            (emit (Decryptor_RegisterNewKeyCB (weak_this s))
               (s\<lparr>bits_per_channel := 16,
                  channel_layout := cfg_channel_layout (config s),
                  samples_per_second := cfg_samples_per_second (config s),
                  timestamp_helper :=
                    Some (new_AudioTimestampHelper (cfg_samples_per_second (config s))),
                  state := kIdle, init_cb := None\<rparr>)))"
  using assms
  by (auto simp: FinishInitialization_def UpdateDecoderConfig_def ResetAndReturn_init_cb_def
        kSupportedBitsPerChannel_def Let_def emit_def)

text \<open>While the decoder is being initialized no decode and no reset is pending.\<close>

lemma constructor_init_inv: "init_inv (constructor r)"
  by (simp add: init_inv_def constructor_def)

lemma Initialize_init_inv:
  "Initialize V cfg cb0 s = Inr s' \<Longrightarrow> init_inv s \<Longrightarrow> init_inv s'"
  by (auto simp: Initialize_def Let_def Inr_simps init_inv_def emit_def
        split: if_split_asm option.splits)

lemma Decode_init_inv:
  "Decode buffer cbo s = Inr s' \<Longrightarrow> init_inv s \<Longrightarrow> init_inv s'"
  by (auto simp: Decode_def Let_def Inr_simps init_inv_def emit_def
        split: if_split_asm option.splits)

lemma Reset_init_inv:
  "Reset closure s = Inr s' \<Longrightarrow> init_inv s \<Longrightarrow> init_inv s'"
  by (auto simp: Reset_def Let_def Inr_simps init_inv_def emit_def
        split: if_split_asm option.splits)

lemma Stop_init_inv:
  "Stop closure s = Inr s' \<Longrightarrow> init_inv s'"
  by (auto simp: Stop_result init_inv_def)

lemma SetDecryptor_init_inv:
  "SetDecryptor d s = Inr s' \<Longrightarrow> init_inv s \<Longrightarrow> init_inv s'"
  by (auto simp: SetDecryptor_def Let_def Inr_simps init_inv_def emit_def
        split: if_split_asm option.splits)

lemma FinishInitialization_init_inv:
  "FinishInitialization ok s = Inr s' \<Longrightarrow> init_inv s \<Longrightarrow> init_inv s'"
  by (auto simp: FinishInitialization_def UpdateDecoderConfig_def Let_def Inr_simps
        init_inv_def emit_def split: if_split_asm option.splits)

lemma DeliverFrame_init_inv:
  "DeliverFrame n st frames s = Inr s' \<Longrightarrow> init_inv s \<Longrightarrow> init_inv s'"
  by (auto simp: DeliverFrame_def Let_def Inr_simps init_inv_def emit_def
        split: if_split_asm option.splits)

lemma OnKeyAdded_init_inv:
  "OnKeyAdded s = Inr s' \<Longrightarrow> init_inv s \<Longrightarrow> init_inv s'"
  by (auto simp: OnKeyAdded_def Let_def Inr_simps init_inv_def emit_def
        split: if_split_asm option.splits)

lemma step_init_inv:
  assumes "step V c s = Inr s'" "init_inv s"
  shows "init_inv s'"
proof (cases c)
  case (Call_Initialize cfg cb0)
  with assms(1) have "Initialize V cfg cb0 s = Inr s'" by simp
  then show ?thesis using assms(2) by (rule Initialize_init_inv)
next
  case (Call_Decode buffer cbo)
  with assms(1) have "Decode buffer cbo s = Inr s'" by simp
  then show ?thesis using assms(2) by (rule Decode_init_inv)
next
  case Call_GetDecodeOutput
  with assms(1) have "s' = s\<lparr>queued_audio_frames := tl (queued_audio_frames s)\<rparr>"
    by (simp add: snd_GetDecodeOutput)
  then show ?thesis using assms(2) by (simp add: init_inv_def)
next
  case (Call_Reset closure)
  with assms(1) have "Reset closure s = Inr s'" by simp
  then show ?thesis using assms(2) by (rule Reset_init_inv)
next
  case (Call_Stop closure)
  with assms(1) have "Stop closure s = Inr s'" by simp
  then show ?thesis by (rule Stop_init_inv)
next
  case (Run_SetDecryptor w d)
  with assms(1) have "via_weak_ptr w (SetDecryptor d) s = Inr s'" by simp
  then show ?thesis using assms(2)
    by (cases rule: via_weak_ptr_cases) (auto intro: SetDecryptor_init_inv)
next
  case (Run_FinishInitialization w ok)
  with assms(1) have "via_weak_ptr w (FinishInitialization ok) s = Inr s'" by simp
  then show ?thesis using assms(2)
    by (cases rule: via_weak_ptr_cases) (auto intro: FinishInitialization_init_inv)
next
  case (Run_DeliverFrame w n st frames)
  with assms(1) have "via_weak_ptr w (DeliverFrame n st frames) s = Inr s'" by simp
  then show ?thesis using assms(2)
    by (cases rule: via_weak_ptr_cases) (auto intro: DeliverFrame_init_inv)
next
  case (Run_OnKeyAdded w)
  with assms(1) have "via_weak_ptr w OnKeyAdded s = Inr s'" by simp
  then show ?thesis using assms(2)
    by (cases rule: via_weak_ptr_cases) (auto intro: OnKeyAdded_init_inv)
qed

lemma run_init_inv:
  "run V cs s = Inr s' \<Longrightarrow> init_inv s \<Longrightarrow> init_inv s'"
  by (induction cs arbitrary: s)
     (auto simp: run_Cons_Inr simp del: run.simps(2) dest: step_init_inv)

lemma fields_inv_ready:
  "state s = kIdle \<or> state s = kDecodeFinished \<Longrightarrow> fields_inv s \<Longrightarrow>
   decode_cb s = None \<and> reset_cb s = None \<and> decryptor s \<noteq> None"
  by (elim disjE) (simp_all add: fields_inv_def)

text \<open>
  Claim C9. Whatever sample format the configuration supplied by the pipeline has, the
  decoder of the decryptor is initialized with that configuration with the sample format
  forced to S16. In every reachable state: every initialization call so far has passed
  S16; when the decryptor arrives (\<open>SetDecryptor\<close> in \<open>kDecryptorRequested\<close>) and when an
  initialized decoder is given a new valid configuration (\<open>Initialize\<close> in \<open>kIdle\<close> or
  \<open>kDecodeFinished\<close>), the decryptor's decoder is initialized with the S16 form of the
  configuration; from \<open>kPendingDecoderInit\<close> on, the last initialization call is the one
  for the current configuration, which has S16 and the channel layout and sample rate of
  the configuration the pipeline supplied last; a successful end of the initialization
  sets 16 bits per channel and the layout and rate of that configuration, and these are
  what an initialized decoder reports.
\<close>

theorem decoder_initialized_with_S16:
  assumes "run V cs (constructor r) = Inr s"
  shows "list_all forces_S16 (effects s)
       \<and> (state s = kDecryptorRequested \<and> init_cb s \<noteq> None \<longrightarrow>
            SetDecryptor (Some d) s =
              Inr (emit (Decryptor_InitializeAudioDecoder
                           ((config s)\<lparr>cfg_sample_format := kSampleFormatS16,
                              cfg_seek_preroll := 0, cfg_codec_delay := 0\<rparr>) (weak_this s))
                     (s\<lparr>set_decryptor_ready_cb := None, decryptor := Some d,
                        config := (config s)\<lparr>cfg_sample_format := kSampleFormatS16,
                                    cfg_seek_preroll := 0, cfg_codec_delay := 0\<rparr>,
                        state := kPendingDecoderInit\<rparr>)))
       \<and> (state s \<in> {kIdle, kDecodeFinished} \<and> V cfg \<and> cfg_is_encrypted cfg \<longrightarrow>
            Initialize V cfg status_cb s =
              Inr (emit (Decryptor_InitializeAudioDecoder
                           (cfg\<lparr>cfg_sample_format := kSampleFormatS16,
                              cfg_seek_preroll := 0, cfg_codec_delay := 0\<rparr>)
                           (Some (weak_factory s)))
                     (emit Decryptor_DeinitializeDecoder
                        (s\<lparr>weak_this := Some (weak_factory s), init_cb := Some status_cb,
                           config := cfg\<lparr>cfg_sample_format := kSampleFormatS16,
                                       cfg_seek_preroll := 0, cfg_codec_delay := 0\<rparr>,
                           state := kPendingDecoderInit\<rparr>))))
       \<and> (state s \<in> {kPendingDecoderInit, kIdle, kPendingDecode, kWaitingForKey,
                      kDecodeFinished} \<longrightarrow>
            last_decoder_init (effects s) = Some (config s)
            \<and> cfg_sample_format (config s) = kSampleFormatS16
            \<and> cfg_channel_layout (config s) =
                cfg_channel_layout (supplied_config V cs default_AudioDecoderConfig)
            \<and> cfg_samples_per_second (config s) =
                cfg_samples_per_second (supplied_config V cs default_AudioDecoderConfig))
       \<and> (state s = kPendingDecoderInit \<and> init_cb s = Some icb \<longrightarrow>
            FinishInitialization True s =
              Inr (emit (InitCB_Run icb PIPELINE_OK)
                     (emit (Decryptor_RegisterNewKeyCB (weak_this s))
                        (s\<lparr>bits_per_channel := 16,
                           channel_layout := cfg_channel_layout (config s),
                           samples_per_second := cfg_samples_per_second (config s),
                           timestamp_helper :=
                             Some (new_AudioTimestampHelper (cfg_samples_per_second (config s))),
                           state := kIdle, init_cb := None\<rparr>))))
       \<and> (state s \<in> {kIdle, kPendingDecode, kWaitingForKey, kDecodeFinished} \<longrightarrow>
            bits_per_channel s = 16
            \<and> channel_layout s =
                cfg_channel_layout (supplied_config V cs default_AudioDecoderConfig)
            \<and> samples_per_second s =
                cfg_samples_per_second (supplied_config V cs default_AudioDecoderConfig))"
proof -
  have ci: "config_inv s" using assms constructor_config_inv by (rule run_config_inv)
  have di: "decoder_init_inv s"
    using assms constructor_decoder_init_inv by (rule run_decoder_init_inv)
  have ii: "init_inv s" using assms constructor_init_inv by (rule run_init_inv)
  have fi: "fields_inv s" using assms by (rule reachable_fields_inv)
  have sc: "same_layout_and_rate (config s) (supplied_config V cs default_AudioDecoderConfig)"
    using run_config[OF assms] by (simp add: constructor_def)
  have 1: "list_all forces_S16 (effects s)" using ci by (simp add: config_inv_def)
  have 2: "SetDecryptor (Some d) s =
              Inr (emit (Decryptor_InitializeAudioDecoder
                           ((config s)\<lparr>cfg_sample_format := kSampleFormatS16,
                              cfg_seek_preroll := 0, cfg_codec_delay := 0\<rparr>) (weak_this s))
                     (s\<lparr>set_decryptor_ready_cb := None, decryptor := Some d,
                        config := (config s)\<lparr>cfg_sample_format := kSampleFormatS16,
                                    cfg_seek_preroll := 0, cfg_codec_delay := 0\<rparr>,
                        state := kPendingDecoderInit\<rparr>))"
    if "state s = kDecryptorRequested" "init_cb s \<noteq> None"
    using that ii by (intro SetDecryptor_initializes_decoder) (simp_all add: init_inv_def)
  have 3: "Initialize V cfg status_cb s =
              Inr (emit (Decryptor_InitializeAudioDecoder
                           (cfg\<lparr>cfg_sample_format := kSampleFormatS16,
                              cfg_seek_preroll := 0, cfg_codec_delay := 0\<rparr>)
                           (Some (weak_factory s)))
                     (emit Decryptor_DeinitializeDecoder
                        (s\<lparr>weak_this := Some (weak_factory s), init_cb := Some status_cb,
                           config := cfg\<lparr>cfg_sample_format := kSampleFormatS16,
                                       cfg_seek_preroll := 0, cfg_codec_delay := 0\<rparr>,
                           state := kPendingDecoderInit\<rparr>)))"
    if "state s \<in> {kIdle, kDecodeFinished}" "V cfg" "cfg_is_encrypted cfg"
  proof -
    have "decode_cb s = None" "reset_cb s = None" "decryptor s \<noteq> None"
      using fields_inv_ready[OF _ fi] that(1) by simp_all
    moreover have "state s \<noteq> kUninitialized" using that(1) by auto
    ultimately have "decode_cb s = None" "reset_cb s = None" "state s \<noteq> kUninitialized"
      "decryptor s \<noteq> None" by simp_all
    with that(2,3) show ?thesis
      by (rule Initialize_reinitializes_decoder[where V = V and cfg = cfg])
  qed
  have 4: "last_decoder_init (effects s) = Some (config s)
            \<and> cfg_sample_format (config s) = kSampleFormatS16
            \<and> cfg_channel_layout (config s) =
                cfg_channel_layout (supplied_config V cs default_AudioDecoderConfig)
            \<and> cfg_samples_per_second (config s) =
                cfg_samples_per_second (supplied_config V cs default_AudioDecoderConfig)"
    if "state s \<in> {kPendingDecoderInit, kIdle, kPendingDecode, kWaitingForKey,
                      kDecodeFinished}"
    using that di sc by (simp add: decoder_init_inv_def same_layout_and_rate_def)
  have 5: "FinishInitialization True s =
              Inr (emit (InitCB_Run icb PIPELINE_OK)
                     (emit (Decryptor_RegisterNewKeyCB (weak_this s))
                        (s\<lparr>bits_per_channel := 16,
                           channel_layout := cfg_channel_layout (config s),
                           samples_per_second := cfg_samples_per_second (config s),
                           timestamp_helper :=
                             Some (new_AudioTimestampHelper (cfg_samples_per_second (config s))),
                           state := kIdle, init_cb := None\<rparr>)))"
    if "state s = kPendingDecoderInit" "init_cb s = Some icb"
    using that ii fi by (intro FinishInitialization_reports) (simp_all add: init_inv_def fields_inv_def)
  have 6: "bits_per_channel s = 16
            \<and> channel_layout s =
                cfg_channel_layout (supplied_config V cs default_AudioDecoderConfig)
            \<and> samples_per_second s =
                cfg_samples_per_second (supplied_config V cs default_AudioDecoderConfig)"
    if "state s \<in> {kIdle, kPendingDecode, kWaitingForKey, kDecodeFinished}"
    using that ci sc by (auto simp: config_inv_def reports_config_def same_layout_and_rate_def)
  show ?thesis
    by (intro conjI; (intro impI)?; (elim conjE)?; (rule 1 2 3 4 5 6; assumption))
qed

theorem decoder_initialized_with_S16_witness:
  "\<exists>s1 s2 s3 s4.
      run example_IsValidConfig (take 1 example_calls) (constructor (Some 0)) = Inr s1 \<and>
      run example_IsValidConfig (take 2 example_calls) (constructor (Some 0)) = Inr s2 \<and>
      run example_IsValidConfig (take 3 example_calls) (constructor (Some 0)) = Inr s3 \<and>
      run example_IsValidConfig example_calls (constructor (Some 0)) = Inr s4 \<and>
      cfg_sample_format example_config = kSampleFormatF32 \<and>
      supplied_config example_IsValidConfig example_calls default_AudioDecoderConfig
        = example_config \<and>
      state s1 = kDecryptorRequested \<and> init_cb s1 \<noteq> None \<and>
      map_sum id effects (SetDecryptor (Some 7) s1) =
        Inr (effects s1 @
          [Decryptor_InitializeAudioDecoder
             (example_config\<lparr>cfg_sample_format := kSampleFormatS16\<rparr>) (Some 0)]) \<and>
      state s2 = kPendingDecoderInit \<and> init_cb s2 = Some 1 \<and>
      last_decoder_init (effects s2) =
        Some (example_config\<lparr>cfg_sample_format := kSampleFormatS16\<rparr>) \<and>
      map_sum id (\<lambda>s. (state s, bits_per_channel s, channel_layout s, samples_per_second s))
          (FinishInitialization True s2) =
        Inr (kIdle, 16, CHANNEL_LAYOUT_STEREO, 48000) \<and>
      state s3 = kIdle \<and> example_IsValidConfig example_config \<and>
      cfg_is_encrypted example_config \<and>
      map_sum id (\<lambda>s. last_decoder_init (effects s))
          (Initialize example_IsValidConfig example_config 9 s3) =
        Inr (Some (example_config\<lparr>cfg_sample_format := kSampleFormatS16\<rparr>)) \<and>
      state s4 = kPendingDecode \<and>
      list_all forces_S16 (effects s4) \<and>
      last_decoder_init (effects s4) =
        Some (example_config\<lparr>cfg_sample_format := kSampleFormatS16\<rparr>) \<and>
      bits_per_channel s4 = 16 \<and> channel_layout s4 = CHANNEL_LAYOUT_STEREO \<and>
      samples_per_second s4 = 48000"
proof -
  obtain s1 where s1:
    "run example_IsValidConfig (take 1 example_calls) (constructor (Some 0)) = Inr s1"
    "state s1 = kDecryptorRequested" "init_cb s1 \<noteq> None" "config s1 = example_config"
    "weak_this s1 = Some 0"
    by (auto simp: example_defs method_defs Let_def)
  obtain s2 where s2:
    "run example_IsValidConfig (take 2 example_calls) (constructor (Some 0)) = Inr s2"
    "state s2 = kPendingDecoderInit" "init_cb s2 = Some 1"
    "config s2 = example_config\<lparr>cfg_sample_format := kSampleFormatS16\<rparr>"
    by (auto simp: example_defs method_defs Let_def)
  obtain s3 where s3:
    "run example_IsValidConfig (take 3 example_calls) (constructor (Some 0)) = Inr s3"
    "state s3 = kIdle"
    by (auto simp: example_defs method_defs Let_def)
  obtain s4 where s4:
    "run example_IsValidConfig example_calls (constructor (Some 0)) = Inr s4"
    "state s4 = kPendingDecode"
    "config s4 = example_config\<lparr>cfg_sample_format := kSampleFormatS16\<rparr>"
    by (auto simp: example_defs method_defs Let_def)
  have c: "supplied_config example_IsValidConfig example_calls default_AudioDecoderConfig
        = example_config"
    by (simp add: example_defs)
  have e: "cfg_sample_format example_config = kSampleFormatF32"
    "cfg_channel_layout example_config = CHANNEL_LAYOUT_STEREO"
    "cfg_samples_per_second example_config = 48000"
    "example_IsValidConfig example_config" "cfg_is_encrypted example_config"
    "example_config\<lparr>cfg_sample_format := kSampleFormatS16, cfg_seek_preroll := 0,
        cfg_codec_delay := 0\<rparr> = example_config\<lparr>cfg_sample_format := kSampleFormatS16\<rparr>"
    by (simp_all add: example_config_def example_IsValidConfig_def)
  note t1 = decoder_initialized_with_S16[OF s1(1), where d = 7]
  note t2 = decoder_initialized_with_S16[OF s2(1), where icb = 1]
  note t3 = decoder_initialized_with_S16[OF s3(1), where cfg = example_config
      and status_cb = 9]
  note t4 = decoder_initialized_with_S16[OF s4(1)]
  show ?thesis
    apply (rule exI[of _ s1], rule exI[of _ s2], rule exI[of _ s3], rule exI[of _ s4])
    using t1 t2 t3 t4 s1 s2 s3 s4 c e
    apply (simp add: emit_def last_decoder_init_append decoder_inits_simps)
    done
qed

subsection \<open>Stop\<close>

lemma taken_by_mono: "taken_by g w \<Longrightarrow> g \<le> g' \<Longrightarrow> taken_by g' w"
  by (auto simp: taken_by_def split: option.splits)

lemma taken_by_simps [simp]: "taken_by g None" "taken_by g (Some g)"
  by (simp_all add: taken_by_def)

lemma constructor_weak_inv: "weak_inv (constructor r)"
  by (simp add: weak_inv_def constructor_def)

lemmas weak_inv_defs = weak_inv_def emit_def

lemma Initialize_weak_inv:
  "Initialize V cfg cb0 s = Inr s' \<Longrightarrow> weak_inv s \<Longrightarrow> weak_inv s'"
  by (auto simp: Initialize_def Let_def Inr_simps weak_inv_defs split: if_split_asm option.splits)

lemma Decode_weak_inv:
  "Decode buffer cbo s = Inr s' \<Longrightarrow> weak_inv s \<Longrightarrow> weak_inv s'"
  by (auto simp: Decode_def Let_def Inr_simps weak_inv_defs split: if_split_asm option.splits)

lemma Reset_weak_inv:
  "Reset closure s = Inr s' \<Longrightarrow> weak_inv s \<Longrightarrow> weak_inv s'"
  by (auto simp: Reset_def Let_def Inr_simps weak_inv_defs split: if_split_asm option.splits)

lemma Stop_effects_weak: "list_all (\<lambda>e. taken_by g (weak_ptr_of e)) (Stop_effects closure s)"
  by (simp add: Stop_effects_def split: option.splits)

lemma Stop_weak_inv:
  assumes "Stop closure s = Inr s'" "weak_inv s"
  shows "weak_inv s'"
proof -
  have "taken_by (weak_factory s + 1) (weak_this s)"
    using assms(2) by (auto simp: weak_inv_def intro: taken_by_mono)
  moreover have "list_all (\<lambda>e. taken_by (weak_factory s + 1) (weak_ptr_of e)) (effects s)"
    using assms(2) by (auto simp: weak_inv_def list_all_iff intro: taken_by_mono)
  ultimately show ?thesis using assms(1)
    by (auto simp: Stop_result weak_inv_def Stop_effects_weak)
qed

lemma SetDecryptor_weak_inv:
  "SetDecryptor d s = Inr s' \<Longrightarrow> weak_inv s \<Longrightarrow> weak_inv s'"
  by (auto simp: SetDecryptor_def Let_def Inr_simps weak_inv_defs split: if_split_asm option.splits)

lemma FinishInitialization_weak_inv:
  "FinishInitialization ok s = Inr s' \<Longrightarrow> weak_inv s \<Longrightarrow> weak_inv s'"
  by (auto simp: FinishInitialization_def UpdateDecoderConfig_def
        Let_def Inr_simps weak_inv_defs split: if_split_asm option.splits)

lemma DeliverFrame_weak_inv:
  "DeliverFrame n st frames s = Inr s' \<Longrightarrow> weak_inv s \<Longrightarrow> weak_inv s'"
  by (auto simp: DeliverFrame_def Let_def Inr_simps weak_inv_defs split: if_split_asm option.splits)

lemma OnKeyAdded_weak_inv:
  "OnKeyAdded s = Inr s' \<Longrightarrow> weak_inv s \<Longrightarrow> weak_inv s'"
  by (auto simp: OnKeyAdded_def Let_def Inr_simps weak_inv_defs split: if_split_asm option.splits)

lemma step_weak_inv:
  assumes "step V c s = Inr s'" "weak_inv s"
  shows "weak_inv s'"
proof (cases c)
  case (Call_Initialize cfg cb0)
  with assms(1) have "Initialize V cfg cb0 s = Inr s'" by simp
  then show ?thesis using assms(2) by (rule Initialize_weak_inv)
next
  case (Call_Decode buffer cbo)
  with assms(1) have "Decode buffer cbo s = Inr s'" by simp
  then show ?thesis using assms(2) by (rule Decode_weak_inv)
next
  case Call_GetDecodeOutput
  with assms(1) have "s' = s\<lparr>queued_audio_frames := tl (queued_audio_frames s)\<rparr>"
    by (simp add: snd_GetDecodeOutput)
  then show ?thesis using assms(2) by (auto simp: weak_inv_defs)
next
  case (Call_Reset closure)
  with assms(1) have "Reset closure s = Inr s'" by simp
  then show ?thesis using assms(2) by (rule Reset_weak_inv)
next
  case (Call_Stop closure)
  with assms(1) have "Stop closure s = Inr s'" by simp
  then show ?thesis using assms(2) by (rule Stop_weak_inv)
next
  case (Run_SetDecryptor w d)
  with assms(1) have "via_weak_ptr w (SetDecryptor d) s = Inr s'" by simp
  then show ?thesis using assms(2)
    by (cases rule: via_weak_ptr_cases) (auto intro: SetDecryptor_weak_inv)
next
  case (Run_FinishInitialization w ok)
  with assms(1) have "via_weak_ptr w (FinishInitialization ok) s = Inr s'" by simp
  then show ?thesis using assms(2)
    by (cases rule: via_weak_ptr_cases) (auto intro: FinishInitialization_weak_inv)
next
  case (Run_DeliverFrame w n st frames)
  with assms(1) have "via_weak_ptr w (DeliverFrame n st frames) s = Inr s'" by simp
  then show ?thesis using assms(2)
    by (cases rule: via_weak_ptr_cases) (auto intro: DeliverFrame_weak_inv)
next
  case (Run_OnKeyAdded w)
  with assms(1) have "via_weak_ptr w OnKeyAdded s = Inr s'" by simp
  then show ?thesis using assms(2)
    by (cases rule: via_weak_ptr_cases) (auto intro: OnKeyAdded_weak_inv)
qed

lemma run_weak_inv:
  "run V cs s = Inr s' \<Longrightarrow> weak_inv s \<Longrightarrow> weak_inv s'"
  by (induction cs arbitrary: s)
     (auto simp: run_Cons_Inr simp del: run.simps(2) dest: step_weak_inv)

text \<open>The generation of the weak pointer factory never goes back.\<close>

lemma Initialize_weak_factory:
  "Initialize V cfg cb0 s = Inr s' \<Longrightarrow> weak_factory s' = weak_factory s"
  by (auto simp: Initialize_def Let_def Inr_simps emit_def split: if_split_asm option.splits)

lemma Decode_weak_factory:
  "Decode buffer cbo s = Inr s' \<Longrightarrow> weak_factory s' = weak_factory s"
  by (auto simp: Decode_def Let_def Inr_simps emit_def split: if_split_asm option.splits)

lemma Reset_weak_factory:
  "Reset closure s = Inr s' \<Longrightarrow> weak_factory s' = weak_factory s"
  by (auto simp: Reset_def Let_def Inr_simps emit_def split: if_split_asm option.splits)

lemma SetDecryptor_weak_factory:
  "SetDecryptor d s = Inr s' \<Longrightarrow> weak_factory s' = weak_factory s"
  by (auto simp: SetDecryptor_def Let_def Inr_simps emit_def split: if_split_asm option.splits)

lemma FinishInitialization_weak_factory:
  "FinishInitialization ok s = Inr s' \<Longrightarrow> weak_factory s' = weak_factory s"
  by (auto simp: FinishInitialization_def UpdateDecoderConfig_def Let_def Inr_simps emit_def
        split: if_split_asm option.splits)

lemma DeliverFrame_weak_factory:
  "DeliverFrame n st frames s = Inr s' \<Longrightarrow> weak_factory s' = weak_factory s"
  by (auto simp: DeliverFrame_def Let_def Inr_simps emit_def split: if_split_asm option.splits)

lemma OnKeyAdded_weak_factory:
  "OnKeyAdded s = Inr s' \<Longrightarrow> weak_factory s' = weak_factory s"
  by (auto simp: OnKeyAdded_def Let_def Inr_simps emit_def split: if_split_asm option.splits)

lemma step_weak_factory:
  assumes "step V c s = Inr s'"
  shows "weak_factory s \<le> weak_factory s'"
proof (cases c)
  case (Call_Initialize cfg cb0)
  with assms show ?thesis using Initialize_weak_factory[of V cfg cb0 s s'] by simp
next
  case (Call_Decode buffer cbo)
  with assms show ?thesis using Decode_weak_factory[of buffer cbo s s'] by simp
next
  case Call_GetDecodeOutput
  with assms show ?thesis by (auto simp: snd_GetDecodeOutput)
next
  case (Call_Reset closure)
  with assms show ?thesis using Reset_weak_factory[of closure s s'] by simp
next
  case (Call_Stop closure)
  with assms show ?thesis by (auto simp: Stop_result)
next
  case (Run_SetDecryptor w d)
  with assms have "via_weak_ptr w (SetDecryptor d) s = Inr s'" by simp
  then show ?thesis
    by (cases rule: via_weak_ptr_cases) (auto dest: SetDecryptor_weak_factory)
next
  case (Run_FinishInitialization w ok)
  with assms have "via_weak_ptr w (FinishInitialization ok) s = Inr s'" by simp
  then show ?thesis
    by (cases rule: via_weak_ptr_cases) (auto dest: FinishInitialization_weak_factory)
next
  case (Run_DeliverFrame w n st frames)
  with assms have "via_weak_ptr w (DeliverFrame n st frames) s = Inr s'" by simp
  then show ?thesis
    by (cases rule: via_weak_ptr_cases) (auto dest: DeliverFrame_weak_factory)
next
  case (Run_OnKeyAdded w)
  with assms have "via_weak_ptr w OnKeyAdded s = Inr s'" by simp
  then show ?thesis
    by (cases rule: via_weak_ptr_cases) (auto dest: OnKeyAdded_weak_factory)
qed

lemma run_weak_factory:
  "run V cs s = Inr s' \<Longrightarrow> weak_factory s \<le> weak_factory s'"
proof (induction cs arbitrary: s)
  case Nil
  then show ?case by simp
next
  case (Cons c cs)
  then obtain s1 where s1: "step V c s = Inr s1" "run V cs s1 = Inr s'"
    by (auto simp: run_Cons_Inr simp del: run.simps(2))
  show ?case using step_weak_factory[OF s1(1)] Cons.IH[OF s1(2)] by simp
qed

lemma via_weak_ptr_dropped:
  "taken_by g w \<Longrightarrow> g < weak_factory s \<Longrightarrow> via_weak_ptr w f s = Inr s"
  by (auto simp: via_weak_ptr_def taken_by_def split: option.splits)

text \<open>
  Claim C3. In every reachable state \<open>Stop\<close> returns. It starts a new generation of weak
  pointers, deinitializes the decryptor's decoder if there is a decryptor, and then runs,
  in this order and each once, what is still held: the set-decryptor-ready callback (with
  the empty \<^verbatim>\<open>DecryptorReadyCB()\<close>, which withdraws the request for a decryptor), the init
  callback with \<open>DECODER_ERROR_NOT_SUPPORTED\<close>, the decode callback with \<open>kAborted\<close> and no
  frame, the reset callback; last it posts its own closure. All four callbacks and the
  pending buffer are empty afterwards and the state is \<open>kStopped\<close>. From then on, after
  any further calls, every continuation that was bound to a weak pointer before \<open>Stop\<close>
  is dropped when it is run: the decoder stays as it is.
\<close>

theorem Stop_completes_and_cancels:
  assumes "run V cs (constructor r) = Inr s"
  shows "Stop closure s =
           Inr (s\<lparr>weak_factory := weak_factory s + 1, decryptor := None,
                  set_decryptor_ready_cb := None, pending_buffer_to_decode := None,
                  init_cb := None, decode_cb := None, reset_cb := None, state := kStopped,
                  effects := effects s @ Stop_effects closure s\<rparr>)
       \<and> (\<forall>s' ds s'' f. Stop closure s = Inr s' \<and> run V ds s' = Inr s'' \<longrightarrow>
             via_weak_ptr (weak_this s) f s'' = Inr s'' \<and>
             (\<forall>e \<in> set (effects s). via_weak_ptr (weak_ptr_of e) f s'' = Inr s''))"
proof -
  have inv: "weak_inv s" using assms constructor_weak_inv by (rule run_weak_inv)
  have "via_weak_ptr (weak_this s) f s'' = Inr s'' \<and>
        (\<forall>e \<in> set (effects s). via_weak_ptr (weak_ptr_of e) f s'' = Inr s'')"
    if "Stop closure s = Inr s'" "run V ds s' = Inr s''" for s' ds s'' f
  proof -
    have "weak_factory s' = weak_factory s + 1" using that(1) by (auto simp: Stop_result)
    then have lt: "weak_factory s < weak_factory s''"
      using run_weak_factory[OF that(2)] by simp
    show ?thesis using inv lt
      by (auto simp: weak_inv_def list_all_iff intro: via_weak_ptr_dropped)
  qed
  then show ?thesis using Stop_result[of closure s] by blast
qed

theorem Stop_completes_and_cancels_witness:
  "\<exists>s s'. run example_IsValidConfig example_stop_calls (constructor (Some 0)) = Inr s \<and>
      state s = kPendingDecode \<and> weak_this s = Some 0 \<and>
      Stop 9 s = Inr s' \<and> state s' = kStopped \<and> pending_buffer_to_decode s' = None \<and>
      effects s' = effects s @
        [Decryptor_DeinitializeDecoder, DecodeCB_Run 2 kAborted None, ResetCB_Run 5, PostTask 9] \<and>
      run example_IsValidConfig [Call_GetDecodeOutput] s' = Inr s' \<and>
      step example_IsValidConfig (Run_DeliverFrame (Some 0) 0 kSuccess [example_frame]) s' = Inr s' \<and>
      step example_IsValidConfig (Run_OnKeyAdded (Some 0)) s' = Inr s'"
proof -
  obtain s where s: "run example_IsValidConfig example_stop_calls (constructor (Some 0)) = Inr s"
    "state s = kPendingDecode" "weak_this s = Some 0" "decryptor s = Some 7"
    "set_decryptor_ready_cb s = None" "init_cb s = None" "decode_cb s = Some 2"
    "reset_cb s = Some 5" "queued_audio_frames s = []"
    by (auto simp: example_defs example_stop_calls_def method_defs Let_def)
  define s' where "s' = s\<lparr>weak_factory := weak_factory s + 1, decryptor := None,
                  set_decryptor_ready_cb := None, pending_buffer_to_decode := None,
                  init_cb := None, decode_cb := None, reset_cb := None, state := kStopped,
                  effects := effects s @ Stop_effects 9 s\<rparr>"
  note stop_thm = Stop_completes_and_cancels[OF s(1), of 9]
  have st: "Stop 9 s = Inr s'" using stop_thm by (simp add: s'_def)
  have g: "run example_IsValidConfig [Call_GetDecodeOutput] s' = Inr s'"
    using s(9) by (simp add: s'_def snd_GetDecodeOutput)
  have "via_weak_ptr (weak_this s) f s' = Inr s'" for f
    using stop_thm st g by blast
  then have "step example_IsValidConfig (Run_DeliverFrame (Some 0) 0 kSuccess [example_frame]) s' = Inr s'"
     "step example_IsValidConfig (Run_OnKeyAdded (Some 0)) s' = Inr s'"
    using s(3) by simp_all
  moreover have "state s' = kStopped" "pending_buffer_to_decode s' = None"
    "effects s' = effects s @
        [Decryptor_DeinitializeDecoder, DecodeCB_Run 2 kAborted None, ResetCB_Run 5, PostTask 9]"
    using s by (simp_all add: s'_def Stop_effects_def)
  ultimately show ?thesis using s st g by blast
qed

subsection \<open>One decrypt request at a time\<close>

lemmas single_flight_defs = single_flight_def submitted_def emit_def

lemma constructor_single_flight: "single_flight (constructor r) 0"
  by (simp add: single_flight_defs constructor_def)

lemma Initialize_single_flight:
  "Initialize V cfg cb0 s = Inr s' \<Longrightarrow> fields_inv s \<Longrightarrow> single_flight s res
   \<Longrightarrow> single_flight s' res"
  by (auto simp: Initialize_def Let_def Inr_simps single_flight_defs fields_inv_def
        split: if_split_asm option.splits)

lemma Decode_single_flight:
  "Decode buffer cbo s = Inr s' \<Longrightarrow> single_flight s res \<Longrightarrow> single_flight s' res"
  by (auto simp: Decode_def Let_def Inr_simps single_flight_defs split: if_split_asm option.splits)

lemma Reset_single_flight:
  "Reset closure s = Inr s' \<Longrightarrow> single_flight s res \<Longrightarrow> single_flight s' res"
  by (auto simp: Reset_def Let_def Inr_simps single_flight_defs split: if_split_asm option.splits)

lemma Stop_effects_no_submission: "filter is_submission (Stop_effects closure s) = []"
  by (simp add: Stop_effects_def split: option.splits)

lemma Stop_single_flight:
  "Stop closure s = Inr s' \<Longrightarrow> single_flight s res \<Longrightarrow> single_flight s' res"
  by (cases "state s = kPendingDecode"; cases "state s = kStopped")
     (auto simp: Stop_result single_flight_def submitted_def Stop_effects_no_submission)

lemma SetDecryptor_single_flight:
  "SetDecryptor d s = Inr s' \<Longrightarrow> single_flight s res \<Longrightarrow> single_flight s' res"
  by (auto simp: SetDecryptor_def Let_def Inr_simps single_flight_defs
        split: if_split_asm option.splits)

lemma FinishInitialization_single_flight:
  "FinishInitialization ok s = Inr s' \<Longrightarrow> single_flight s res \<Longrightarrow> single_flight s' res"
  by (auto simp: FinishInitialization_def UpdateDecoderConfig_def
        Let_def Inr_simps single_flight_defs split: if_split_asm option.splits)

lemma DeliverFrame_single_flight:
  "DeliverFrame n st frames s = Inr s' \<Longrightarrow> single_flight s res
   \<Longrightarrow> single_flight s' (res + 1)"
  by (auto simp: DeliverFrame_def Let_def Inr_simps single_flight_defs
        split: if_split_asm option.splits)

lemma OnKeyAdded_single_flight:
  "OnKeyAdded s = Inr s' \<Longrightarrow> single_flight s res \<Longrightarrow> single_flight s' res"
  by (auto simp: OnKeyAdded_def Let_def Inr_simps single_flight_defs
        split: if_split_asm option.splits)

lemma step_single_flight:
  assumes "step V c s = Inr s'" "fields_inv s" "single_flight s res"
  shows "single_flight s' (res + (if is_response c s then 1 else 0))"
proof (cases c)
  case (Call_Initialize cfg cb0)
  with assms(1) have "Initialize V cfg cb0 s = Inr s'" by simp
  then show ?thesis using assms(2,3) Call_Initialize by (simp add: Initialize_single_flight)
next
  case (Call_Decode buffer cbo)
  with assms(1) have "Decode buffer cbo s = Inr s'" by simp
  then show ?thesis using assms(3) Call_Decode by (simp add: Decode_single_flight)
next
  case Call_GetDecodeOutput
  with assms(1) have "s' = s\<lparr>queued_audio_frames := tl (queued_audio_frames s)\<rparr>"
    by (simp add: snd_GetDecodeOutput)
  then show ?thesis using assms(3) Call_GetDecodeOutput by (auto simp: single_flight_defs)
next
  case (Call_Reset closure)
  with assms(1) have "Reset closure s = Inr s'" by simp
  then show ?thesis using assms(3) Call_Reset by (simp add: Reset_single_flight)
next
  case (Call_Stop closure)
  with assms(1) have "Stop closure s = Inr s'" by simp
  then show ?thesis using assms(3) Call_Stop by (simp add: Stop_single_flight)
next
  case (Run_SetDecryptor w d)
  with assms(1) have "via_weak_ptr w (SetDecryptor d) s = Inr s'" by simp
  then show ?thesis using assms(3) Run_SetDecryptor
    by (cases rule: via_weak_ptr_cases) (auto intro: SetDecryptor_single_flight)
next
  case (Run_FinishInitialization w ok)
  with assms(1) have "via_weak_ptr w (FinishInitialization ok) s = Inr s'" by simp
  then show ?thesis using assms(3) Run_FinishInitialization
    by (cases rule: via_weak_ptr_cases) (auto intro: FinishInitialization_single_flight)
next
  case (Run_DeliverFrame w n st frames)
  with assms(1) have "via_weak_ptr w (DeliverFrame n st frames) s = Inr s'" by simp
  then show ?thesis using assms(3) Run_DeliverFrame
    by (cases rule: via_weak_ptr_cases) (auto dest: DeliverFrame_single_flight)
next
  case (Run_OnKeyAdded w)
  with assms(1) have "via_weak_ptr w OnKeyAdded s = Inr s'" by simp
  then show ?thesis using assms(3) Run_OnKeyAdded
    by (cases rule: via_weak_ptr_cases) (auto intro: OnKeyAdded_single_flight)
qed

lemma run_single_flight:
  "run V cs s = Inr s' \<Longrightarrow> fields_inv s \<Longrightarrow> single_flight s res
   \<Longrightarrow> single_flight s' (res + responses V cs s)"
proof (induction cs arbitrary: s res)
  case Nil
  then show ?case by simp
next
  case (Cons c cs)
  then obtain s1 where s1: "step V c s = Inr s1" "run V cs s1 = Inr s'"
    by (auto simp: run_Cons_Inr simp del: run.simps(2))
  have "fields_inv s1" using s1(1) Cons.prems(2) by (rule step_fields_inv)
  moreover have "single_flight s1 (res + (if is_response c s then 1 else 0))"
    using s1(1) Cons.prems(2,3) by (rule step_single_flight)
  ultimately have "single_flight s' (res + (if is_response c s then 1 else 0) + responses V cs s1)"
    using Cons.IH[OF s1(2)] by blast
  then show ?case using s1(1) by (simp add: add.assoc)
qed

lemma Decode_contract:
  "\<not> (state s = kIdle \<or> state s = kDecodeFinished) \<Longrightarrow> Decode buffer cb s = Inl DCHECK_failure"
  by (simp add: Decode_def)

lemma ResetAndReturn_decode_cb_no_CHECK:
  "ResetAndReturn_decode_cb st fr s \<noteq> Inl CHECK_failure"
  by (simp add: ResetAndReturn_decode_cb_def split: option.splits)

lemma DecodePendingBuffer_no_CHECK: "DecodePendingBuffer s \<noteq> Inl CHECK_failure"
  by (simp add: DecodePendingBuffer_def Let_def split: option.splits)

lemma and_then_Inl:
  "and_then m f = Inl e \<longleftrightarrow> m = Inl e \<or> (\<exists>x. m = Inr x \<and> f x = Inl e)"
  by (cases m) (simp_all add: and_then_def)

text \<open>\<open>Decode\<close> once its three checks have passed.\<close>

lemma Decode_checked:
  assumes "state s = kIdle \<or> state s = kDecodeFinished" "decode_cb s = None"
  shows "Decode buffer (Some c) s =
     (if state s = kDecodeFinished
        then ResetAndReturn_decode_cb kOk (Some CreateEOSBuffer) (s\<lparr>decode_cb := Some c\<rparr>)
      else if queued_audio_frames s \<noteq> [] then
        (if buffer \<noteq> None then Inl DCHECK_failure
         else and_then
                (ResetAndReturn_decode_cb kOk (Some (hd (queued_audio_frames s)))
                   (s\<lparr>decode_cb := Some c\<rparr>))
                (\<lambda>s2. Inr (s2\<lparr>queued_audio_frames := tl (queued_audio_frames s2)\<rparr>)))
      else
        (case timestamp_helper s of
           None \<Rightarrow> Inl NULL_dereference
         | Some h \<Rightarrow>
             if ath_base_timestamp h = kNoTimestamp then
               (case buffer of
                  None \<Rightarrow> Inl NULL_dereference
                | Some b \<Rightarrow>
                    DecodePendingBuffer
                      ((if \<not> db_end_of_stream b
                        then s\<lparr>decode_cb := Some c,
                               timestamp_helper := Some (SetBaseTimestamp (db_timestamp b) h)\<rparr>
                        else s\<lparr>decode_cb := Some c\<rparr>)
                       \<lparr>pending_buffer_to_decode := buffer, state := kPendingDecode\<rparr>))
             else
               DecodePendingBuffer
                 (s\<lparr>decode_cb := Some c, pending_buffer_to_decode := buffer,
                    state := kPendingDecode\<rparr>)))"
  using assms by (simp add: Decode_def Let_def cong: option.case_cong if_cong)

lemma Decode_CHECK_failure:
  assumes "Decode buffer cb s = Inl CHECK_failure"
  shows "(state s = kIdle \<or> state s = kDecodeFinished) \<and> decode_cb s \<noteq> None"
proof -
  have 1: "state s = kIdle \<or> state s = kDecodeFinished"
    using assms Decode_contract[of s buffer cb] by auto
  have "decode_cb s \<noteq> None"
  proof
    assume n: "decode_cb s = None"
    show False
    proof (cases cb)
      case None
      then show False using assms 1 by (simp add: Decode_def)
    next
      case (Some c)
      have "Decode buffer (Some c) s \<noteq> Inl CHECK_failure"
        unfolding Decode_checked[OF 1 n]
        by (simp add: ResetAndReturn_decode_cb_no_CHECK DecodePendingBuffer_no_CHECK
              and_then_Inl split: option.splits)
      then show False using assms Some by simp
    qed
  qed
  then show ?thesis using 1 by simp
qed

lemma Decode_no_CHECK_failure:
  assumes "fields_inv s"
  shows "Decode buffer cb s \<noteq> Inl CHECK_failure"
proof
  assume "Decode buffer cb s = Inl CHECK_failure"
  then have "(state s = kIdle \<or> state s = kDecodeFinished) \<and> decode_cb s \<noteq> None"
    by (rule Decode_CHECK_failure)
  moreover have "state s = kIdle \<Longrightarrow> decode_cb s = None"
    using assms by (simp add: fields_inv_def)
  moreover have "state s = kDecodeFinished \<Longrightarrow> decode_cb s = None"
    using assms by (simp add: fields_inv_def)
  ultimately show False by auto
qed

text \<open>
  Claim C7. After every call sequence the decoder accepts, the decrypt requests submitted
  exceed the responses delivered by at most one, and by exactly one in \<open>kPendingDecode\<close>.
  \<open>Decode\<close> outside \<open>kIdle\<close> and \<open>kDecodeFinished\<close>, and \<open>Decode\<close> while a decode callback is
  still held, end in a failed \<^verbatim>\<open>DCHECK\<close>: an assertion failure, not a result passed to the
  callback. In no reachable state does \<open>Decode\<close> end in the failed \<^verbatim>\<open>CHECK\<close> for overlapping
  decodes: whenever the state check passes, no callback is held.
\<close>

theorem single_flight_decode:
  assumes "run V cs (constructor r) = Inr s"
  shows "responses V cs (constructor r) \<le> submitted s
       \<and> submitted s \<le> responses V cs (constructor r) + 1
       \<and> (state s = kPendingDecode \<longrightarrow> submitted s = responses V cs (constructor r) + 1)
       \<and> (decode_cb s \<noteq> None \<or> \<not> (state s = kIdle \<or> state s = kDecodeFinished) \<longrightarrow>
            Decode buffer cb s = Inl DCHECK_failure)
       \<and> Decode buffer cb s \<noteq> Inl CHECK_failure"
proof -
  have inv: "fields_inv s" using assms by (rule reachable_fields_inv)
  have "single_flight s (0 + responses V cs (constructor r))"
    using assms constructor_fields_inv constructor_single_flight by (rule run_single_flight)
  then have sf: "single_flight s (responses V cs (constructor r))" by simp
  have 1: "responses V cs (constructor r) \<le> submitted s
       \<and> submitted s \<le> responses V cs (constructor r) + 1
       \<and> (state s = kPendingDecode \<longrightarrow> submitted s = responses V cs (constructor r) + 1)"
    using sf by (cases "state s = kPendingDecode"; cases "state s = kStopped")
      (auto simp: single_flight_def)
  have "state s = kIdle \<Longrightarrow> decode_cb s = None"
    using inv by (simp add: fields_inv_def)
  moreover have "state s = kDecodeFinished \<Longrightarrow> decode_cb s = None"
    using inv by (simp add: fields_inv_def)
  ultimately have "\<not> (state s = kIdle \<or> state s = kDecodeFinished)"
    if "decode_cb s \<noteq> None \<or> \<not> (state s = kIdle \<or> state s = kDecodeFinished)"
    using that by auto
  then have 2: "decode_cb s \<noteq> None \<or> \<not> (state s = kIdle \<or> state s = kDecodeFinished) \<longrightarrow>
            Decode buffer cb s = Inl DCHECK_failure"
    using Decode_contract[of s buffer cb] by blast
  have 3: "Decode buffer cb s \<noteq> Inl CHECK_failure"
    using inv by (rule Decode_no_CHECK_failure)
  from 1 2 3 show ?thesis by simp
qed

theorem single_flight_decode_witness:
  "\<exists>s. run example_IsValidConfig example_calls (constructor (Some 0)) = Inr s \<and>
      state s = kPendingDecode \<and> decode_cb s = Some 2 \<and>
      responses example_IsValidConfig example_calls (constructor (Some 0)) = 0 \<and>
      submitted s = 1 \<and>
      Decode (Some example_buffer) (Some 3) s = Inl DCHECK_failure"
proof -
  obtain s where s: "run example_IsValidConfig example_calls (constructor (Some 0)) = Inr s"
    "state s = kPendingDecode" "decode_cb s = Some 2"
    by (auto simp: example_defs method_defs Let_def)
  have r: "responses example_IsValidConfig example_calls (constructor (Some 0)) = 0"
    by (simp add: example_defs method_defs Let_def)
  show ?thesis
    using single_flight_decode[OF s(1), of "Some example_buffer" "Some 3"] s r by auto
qed

subsection \<open>The output queue\<close>

lemma EnqueueFrames_loop_length:
  "EnqueueFrames_loop frames th = Inr (q, th') \<Longrightarrow> length q = length frames"
  by (induction frames arbitrary: th q)
     (auto simp: Let_def split: if_split_asm option.splits sum.splits)

lemma EnqueueFrames_loop_out:
  "EnqueueFrames_loop frames th = Inr (q, th') \<Longrightarrow>
   list_all (\<lambda>f. \<not> ab_end_of_stream f) q \<and> list_all2 retimed frames q"
  by (induction frames arbitrary: th q)
     (auto simp: Let_def retimed_def split: if_split_asm option.splits sum.splits)

lemma Initialize_queue: "Initialize V cfg cb0 s = Inr s' \<Longrightarrow> queue_step s s'"
  by (auto simp: Initialize_def Let_def Inr_simps emit_def queue_step_def
        split: if_split_asm option.splits)

lemma Decode_queue: "Decode buffer cbo s = Inr s' \<Longrightarrow> queue_step s s'"
  by (auto simp: Decode_def Let_def Inr_simps emit_def queue_step_def
        split: if_split_asm option.splits)

lemma Reset_queue: "Reset closure s = Inr s' \<Longrightarrow> queue_step s s'"
  by (auto simp: Reset_def Let_def Inr_simps emit_def queue_step_def
        split: if_split_asm option.splits)

lemma Stop_queue: "Stop closure s = Inr s' \<Longrightarrow> queue_step s s'"
  by (auto simp: Stop_result queue_step_def)

lemma SetDecryptor_queue: "SetDecryptor d s = Inr s' \<Longrightarrow> queue_step s s'"
  by (auto simp: SetDecryptor_def Let_def Inr_simps emit_def queue_step_def
        split: if_split_asm option.splits)

lemma FinishInitialization_queue: "FinishInitialization ok s = Inr s' \<Longrightarrow> queue_step s s'"
  by (auto simp: FinishInitialization_def UpdateDecoderConfig_def Let_def Inr_simps emit_def
        queue_step_def split: if_split_asm option.splits)

lemma OnKeyAdded_queue: "OnKeyAdded s = Inr s' \<Longrightarrow> queue_step s s'"
  by (auto simp: OnKeyAdded_def Let_def Inr_simps emit_def queue_step_def
        split: if_split_asm option.splits)

lemma DeliverFrame_enqueues:
  "DeliverFrame n st frames s = Inr s' \<Longrightarrow>
   queued_audio_frames s = [] \<and>
   (queued_audio_frames s' = [] \<or>
    st = kSuccess \<and>
    (\<exists>q th cb. EnqueueFrames_loop frames (timestamp_helper s) = Inr (q, th) \<and>
       list_all2 retimed frames q \<and>
       effects s' = effects s @ [DecodeCB_Run cb kOk (Some (hd q))] \<and>
       queued_audio_frames s' = tl q))"
  by (cases st)
     (auto simp: DeliverFrame_def Let_def Inr_simps emit_def
        dest: EnqueueFrames_loop_out split: if_split_asm option.splits)

lemma DeliverFrame_checks_queue:
  "queued_audio_frames s \<noteq> [] \<Longrightarrow> DeliverFrame n st frames s = Inl DCHECK_failure"
  by (simp add: DeliverFrame_def)

lemma DeliverFrame_Success:
  assumes "DeliverFrame n kSuccess frames s = Inr s'" "reset_cb s = None"
  shows "\<exists>q th cb. EnqueueFrames_loop frames (timestamp_helper s) = Inr (q, th) \<and>
           list_all2 retimed frames q \<and> decode_cb s = Some cb \<and>
           s' = s\<lparr>key_added_while_decode_pending := False, pending_buffer_to_decode := None,
                  timestamp_helper := th, state := kIdle, decode_cb := None,
                  effects := effects s @ [DecodeCB_Run cb kOk (Some (hd q))],
                  queued_audio_frames := tl q\<rparr>"
  using assms
  by (auto simp: DeliverFrame_def Let_def Inr_simps emit_def
        dest: EnqueueFrames_loop_out split: if_split_asm option.splits)

lemma step_enqueues:
  assumes "step V c s = Inr s'"
  shows "queue_step s s' \<or>
     (\<exists>w n frames q th cb. c = Run_DeliverFrame w n kSuccess frames \<and>
        queued_audio_frames s = [] \<and>
        EnqueueFrames_loop frames (timestamp_helper s) = Inr (q, th) \<and>
        list_all2 retimed frames q \<and>
        effects s' = effects s @ [DecodeCB_Run cb kOk (Some (hd q))] \<and>
        queued_audio_frames s' = tl q)"
proof (cases c)
  case (Call_Initialize cfg cb0)
  with assms show ?thesis using Initialize_queue[of V cfg cb0 s s'] by simp
next
  case (Call_Decode buffer cbo)
  with assms show ?thesis using Decode_queue[of buffer cbo s s'] by simp
next
  case Call_GetDecodeOutput
  with assms show ?thesis by (auto simp: snd_GetDecodeOutput queue_step_def)
next
  case (Call_Reset closure)
  with assms show ?thesis using Reset_queue[of closure s s'] by simp
next
  case (Call_Stop closure)
  with assms show ?thesis using Stop_queue[of closure s s'] by simp
next
  case (Run_SetDecryptor w d)
  with assms have "via_weak_ptr w (SetDecryptor d) s = Inr s'" by simp
  then show ?thesis
    by (cases rule: via_weak_ptr_cases) (auto simp: queue_step_def dest: SetDecryptor_queue)
next
  case (Run_FinishInitialization w ok)
  with assms have "via_weak_ptr w (FinishInitialization ok) s = Inr s'" by simp
  then show ?thesis
    by (cases rule: via_weak_ptr_cases)
       (auto simp: queue_step_def dest: FinishInitialization_queue)
next
  case (Run_DeliverFrame w n st frames)
  with assms have "via_weak_ptr w (DeliverFrame n st frames) s = Inr s'" by simp
  then show ?thesis
  proof (cases rule: via_weak_ptr_cases)
    case 1
    from DeliverFrame_enqueues[OF 1(2)] show ?thesis
      using Run_DeliverFrame by (auto simp: queue_step_def)
  next
    case 2
    then show ?thesis by (simp add: queue_step_def)
  qed
next
  case (Run_OnKeyAdded w)
  with assms have "via_weak_ptr w OnKeyAdded s = Inr s'" by simp
  then show ?thesis
    by (cases rule: via_weak_ptr_cases) (auto simp: queue_step_def dest: OnKeyAdded_queue)
qed

text \<open>Which steps submit a decrypt request, and what the queue is then.\<close>

lemmas submit_defs = submitted_def emit_def

lemma Initialize_submitted: "Initialize V cfg cb0 s = Inr s' \<Longrightarrow> submitted s' = submitted s"
  by (auto simp: Initialize_def Let_def Inr_simps submit_defs split: if_split_asm option.splits)

lemma Reset_submitted: "Reset closure s = Inr s' \<Longrightarrow> submitted s' = submitted s"
  by (auto simp: Reset_def Let_def Inr_simps submit_defs split: if_split_asm option.splits)

lemma Stop_submitted: "Stop closure s = Inr s' \<Longrightarrow> submitted s' = submitted s"
  by (auto simp: Stop_result submitted_def Stop_effects_no_submission)

lemma SetDecryptor_submitted: "SetDecryptor d s = Inr s' \<Longrightarrow> submitted s' = submitted s"
  by (auto simp: SetDecryptor_def Let_def Inr_simps submit_defs split: if_split_asm option.splits)

lemma FinishInitialization_submitted:
  "FinishInitialization ok s = Inr s' \<Longrightarrow> submitted s' = submitted s"
  by (auto simp: FinishInitialization_def UpdateDecoderConfig_def Let_def Inr_simps submit_defs
        split: if_split_asm option.splits)

lemma Decode_submits:
  "Decode buffer cbo s = Inr s' \<Longrightarrow> submitted s < submitted s' \<Longrightarrow>
   queued_audio_frames s = [] \<and> queued_audio_frames s' = []"
  by (auto simp: Decode_def Let_def Inr_simps submit_defs split: if_split_asm option.splits)

lemma DeliverFrame_submits:
  "DeliverFrame n st frames s = Inr s' \<Longrightarrow> submitted s < submitted s' \<Longrightarrow>
   queued_audio_frames s = [] \<and> queued_audio_frames s' = []"
  by (auto simp: DeliverFrame_def Let_def Inr_simps submit_defs split: if_split_asm option.splits)

lemma OnKeyAdded_submits:
  "OnKeyAdded s = Inr s' \<Longrightarrow> fields_inv s \<Longrightarrow> submitted s < submitted s' \<Longrightarrow>
   queued_audio_frames s = [] \<and> queued_audio_frames s' = []"
  by (auto simp: OnKeyAdded_def Let_def Inr_simps submit_defs fields_inv_def
        split: if_split_asm option.splits)

lemma step_submits:
  assumes "step V c s = Inr s'" "fields_inv s" "submitted s < submitted s'"
  shows "queued_audio_frames s = [] \<and> queued_audio_frames s' = []"
proof (cases c)
  case (Call_Initialize cfg cb0)
  with assms show ?thesis using Initialize_submitted[of V cfg cb0 s s'] by simp
next
  case (Call_Decode buffer cbo)
  with assms show ?thesis using Decode_submits[of buffer cbo s s'] by simp
next
  case Call_GetDecodeOutput
  with assms show ?thesis by (auto simp: snd_GetDecodeOutput submitted_def)
next
  case (Call_Reset closure)
  with assms show ?thesis using Reset_submitted[of closure s s'] by simp
next
  case (Call_Stop closure)
  with assms show ?thesis using Stop_submitted[of closure s s'] by simp
next
  case (Run_SetDecryptor w d)
  with assms have "via_weak_ptr w (SetDecryptor d) s = Inr s'" by simp
  then show ?thesis using assms(3)
    by (cases rule: via_weak_ptr_cases) (auto dest: SetDecryptor_submitted)
next
  case (Run_FinishInitialization w ok)
  with assms have "via_weak_ptr w (FinishInitialization ok) s = Inr s'" by simp
  then show ?thesis using assms(3)
    by (cases rule: via_weak_ptr_cases) (auto dest: FinishInitialization_submitted)
next
  case (Run_DeliverFrame w n st frames)
  with assms have "via_weak_ptr w (DeliverFrame n st frames) s = Inr s'" by simp
  then show ?thesis using assms(3)
    by (cases rule: via_weak_ptr_cases) (auto dest: DeliverFrame_submits)
next
  case (Run_OnKeyAdded w)
  with assms have "via_weak_ptr w OnKeyAdded s = Inr s'" by simp
  then show ?thesis using assms(2,3)
    by (cases rule: via_weak_ptr_cases) (auto dest: OnKeyAdded_submits)
qed

lemma Decode_dequeues:
  assumes "fields_inv s" "state s = kIdle" "queued_audio_frames s \<noteq> []"
  shows "Decode None (Some cb) s =
           Inr ((emit (DecodeCB_Run cb kOk (Some (hd (queued_audio_frames s))))
                   (s\<lparr>decode_cb := None\<rparr>))
                \<lparr>queued_audio_frames := tl (queued_audio_frames s)\<rparr>)"
    and "Decode (Some b) (Some cb) s = Inl DCHECK_failure"
  using assms
  by (auto simp: Decode_def fields_inv_def ResetAndReturn_decode_cb_def and_then_def emit_def)

lemma fields_inv_idle:
  "fields_inv s \<Longrightarrow> state s = kIdle \<Longrightarrow> decode_cb s = None \<and> decryptor s \<noteq> None"
  by (simp add: fields_inv_def)

lemma Decode_front:
  assumes "state s = kIdle" "decode_cb s = None" "queued_audio_frames s = f # q"
  shows "Decode None (Some cb) s =
           Inr (s\<lparr>effects := effects s @ [DecodeCB_Run cb kOk (Some f)],
                  queued_audio_frames := q\<rparr>)"
  using assms
  by (simp add: Decode_def ResetAndReturn_decode_cb_def and_then_def emit_def)

lemma run_drain:
  assumes "state s = kIdle" "decode_cb s = None" "length cbs \<le> length (queued_audio_frames s)"
  shows "run V (drain_calls cbs) s =
           Inr (s\<lparr>effects := effects s @
                    map2 (\<lambda>cb f. DecodeCB_Run cb kOk (Some f)) cbs (queued_audio_frames s),
                  queued_audio_frames := drop (length cbs) (queued_audio_frames s)\<rparr>)"
  using assms
proof (induction cbs arbitrary: s)
  case Nil
  then show ?case by (simp add: drain_calls_def)
next
  case (Cons cb cbs)
  then obtain f q where q: "queued_audio_frames s = f # q" by (cases "queued_audio_frames s") auto
  let ?s1 = "s\<lparr>effects := effects s @ [DecodeCB_Run cb kOk (Some f)],
                  queued_audio_frames := q\<rparr>"
  have d: "Decode None (Some cb) s = Inr ?s1"
    using Cons.prems(1,2) q by (rule Decode_front)
  have "run V (drain_calls cbs) ?s1 =
           Inr (?s1\<lparr>effects := effects ?s1 @
                    map2 (\<lambda>cb f. DecodeCB_Run cb kOk (Some f)) cbs (queued_audio_frames ?s1),
                  queued_audio_frames := drop (length cbs) (queued_audio_frames ?s1)\<rparr>)"
    using Cons.prems q by (intro Cons.IH) simp_all
  then show ?case using d q by (simp add: drain_calls_def)
qed

lemma fields_inv_queue_empty:
  "fields_inv s \<Longrightarrow> state s = kPendingDecode \<or> state s = kWaitingForKey \<Longrightarrow>
   queued_audio_frames s = []"
  by (elim disjE) (simp_all add: fields_inv_def)

lemma retimed_frame_count:
  "list_all2 retimed xs ys \<Longrightarrow> map ab_frame_count ys = map ab_frame_count xs"
proof (induction rule: list_all2_induct)
  case Nil
  then show ?case by simp
next
  case (Cons x xs y ys)
  from Cons.hyps(1) have "ab_frame_count y = ab_frame_count x"
    unfolding retimed_def by (metis AudioBuffer.select_convs(2) AudioBuffer.surjective
        AudioBuffer.update_convs(3) AudioBuffer.update_convs(4))
  then show ?case using Cons.IH by simp
qed

text \<open>
  Claim C8. In every reachable state: a step that submits a decrypt request starts and
  ends with the output queue empty, and while a request is in flight or waits for a key
  the queue is empty. A step leaves the queue as it is or removes its front, except a
  \<open>kSuccess\<close> response, which arrives at an empty queue: its frames, in arrival order and
  with only timestamp and duration rewritten, are enqueued, the first of them is run
  through the decode callback at once and the others stay queued (with no reset pending
  this is all an accepted \<open>kSuccess\<close> response does, and the state becomes \<open>kIdle\<close>). So the queue becomes
  non-empty only by a response with more than one frame. \<open>Decode\<close> in \<open>kIdle\<close> with frames
  queued and no buffer runs its callback with the front frame, removes that frame and
  submits nothing (with a buffer it fails the \<^verbatim>\<open>DCHECK(!buffer)\<close>); successive such calls,
  as many as there are frames queued, run their callbacks with the queued frames front
  to back and leave the rest of the queue: the queue is first-in first-out.
  \<open>DeliverFrame\<close> checks that the queue is empty: in any state of the object, reachable
  or not, with frames queued it fails a \<^verbatim>\<open>DCHECK\<close>.
\<close>

theorem output_queue_fifo:
  assumes "run V cs (constructor r) = Inr s"
  shows "(\<forall>c s'. step V c s = Inr s' \<and> submitted s < submitted s' \<longrightarrow>
            queued_audio_frames s = [] \<and> queued_audio_frames s' = [])
       \<and> (state s = kPendingDecode \<or> state s = kWaitingForKey \<longrightarrow>
            queued_audio_frames s = [])
       \<and> (\<forall>c s'. step V c s = Inr s' \<longrightarrow>
            queued_audio_frames s' = queued_audio_frames s
            \<or> queued_audio_frames s' = tl (queued_audio_frames s)
            \<or> (\<exists>w k frames q th cb'. c = Run_DeliverFrame w k kSuccess frames \<and>
                  queued_audio_frames s = [] \<and>
                  EnqueueFrames_loop frames (timestamp_helper s) = Inr (q, th) \<and>
                  list_all2 retimed frames q \<and>
                  effects s' = effects s @ [DecodeCB_Run cb' kOk (Some (hd q))] \<and>
                  queued_audio_frames s' = tl q))
       \<and> (state s = kIdle \<and> queued_audio_frames s \<noteq> [] \<longrightarrow>
            Decode None (Some cb) s =
              Inr ((emit (DecodeCB_Run cb kOk (Some (hd (queued_audio_frames s))))
                      (s\<lparr>decode_cb := None\<rparr>))
                   \<lparr>queued_audio_frames := tl (queued_audio_frames s)\<rparr>)
            \<and> Decode (Some b) (Some cb) s = Inl DCHECK_failure)
       \<and> (state s = kIdle \<and> length cbs \<le> length (queued_audio_frames s) \<longrightarrow>
            run V (drain_calls cbs) s =
              Inr (s\<lparr>effects := effects s @
                       map2 (\<lambda>cb f. DecodeCB_Run cb kOk (Some f)) cbs (queued_audio_frames s),
                     queued_audio_frames := drop (length cbs) (queued_audio_frames s)\<rparr>))
       \<and> (\<forall>u. queued_audio_frames u \<noteq> [] \<longrightarrow> DeliverFrame n st fs u = Inl DCHECK_failure)
       \<and> (reset_cb s = None \<and> DeliverFrame k kSuccess frames s = Inr s' \<longrightarrow>
            (\<exists>q th cb'. EnqueueFrames_loop frames (timestamp_helper s) = Inr (q, th) \<and>
               list_all2 retimed frames q \<and> decode_cb s = Some cb' \<and>
               s' = s\<lparr>key_added_while_decode_pending := False,
                      pending_buffer_to_decode := None, timestamp_helper := th,
                      state := kIdle, decode_cb := None,
                      effects := effects s @ [DecodeCB_Run cb' kOk (Some (hd q))],
                      queued_audio_frames := tl q\<rparr>))"
proof -
  have inv: "fields_inv s" using assms by (rule reachable_fields_inv)
  have 1: "\<forall>c s'. step V c s = Inr s' \<and> submitted s < submitted s' \<longrightarrow>
            queued_audio_frames s = [] \<and> queued_audio_frames s' = []"
    using step_submits[OF _ inv] by blast
  have 2: "state s = kPendingDecode \<or> state s = kWaitingForKey \<longrightarrow>
            queued_audio_frames s = []"
    using fields_inv_queue_empty[OF inv] by blast
  have 3: "\<forall>c s'. step V c s = Inr s' \<longrightarrow>
            queued_audio_frames s' = queued_audio_frames s
            \<or> queued_audio_frames s' = tl (queued_audio_frames s)
            \<or> (\<exists>w k frames q th cb'. c = Run_DeliverFrame w k kSuccess frames \<and>
                  queued_audio_frames s = [] \<and>
                  EnqueueFrames_loop frames (timestamp_helper s) = Inr (q, th) \<and>
                  list_all2 retimed frames q \<and>
                  effects s' = effects s @ [DecodeCB_Run cb' kOk (Some (hd q))] \<and>
                  queued_audio_frames s' = tl q)"
    using step_enqueues[of V _ s] unfolding queue_step_def by blast
  have 4: "state s = kIdle \<and> queued_audio_frames s \<noteq> [] \<longrightarrow>
            Decode None (Some cb) s =
              Inr ((emit (DecodeCB_Run cb kOk (Some (hd (queued_audio_frames s))))
                      (s\<lparr>decode_cb := None\<rparr>))
                   \<lparr>queued_audio_frames := tl (queued_audio_frames s)\<rparr>)
            \<and> Decode (Some b) (Some cb) s = Inl DCHECK_failure"
    using Decode_dequeues[OF inv] by blast
  have 5: "state s = kIdle \<and> length cbs \<le> length (queued_audio_frames s) \<longrightarrow>
            run V (drain_calls cbs) s =
              Inr (s\<lparr>effects := effects s @
                       map2 (\<lambda>cb f. DecodeCB_Run cb kOk (Some f)) cbs (queued_audio_frames s),
                     queued_audio_frames := drop (length cbs) (queued_audio_frames s)\<rparr>)"
  proof (intro impI, elim conjE)
    assume a: "state s = kIdle" "length cbs \<le> length (queued_audio_frames s)"
    have "decode_cb s = None" using fields_inv_idle[OF inv a(1)] by simp
    with a(1) show "run V (drain_calls cbs) s =
              Inr (s\<lparr>effects := effects s @
                       map2 (\<lambda>cb f. DecodeCB_Run cb kOk (Some f)) cbs (queued_audio_frames s),
                     queued_audio_frames := drop (length cbs) (queued_audio_frames s)\<rparr>)"
      using a(2) by (rule run_drain)
  qed
  have 6: "\<forall>u. queued_audio_frames u \<noteq> [] \<longrightarrow> DeliverFrame n st fs u = Inl DCHECK_failure"
    using DeliverFrame_checks_queue by blast
  have 7: "reset_cb s = None \<and> DeliverFrame k kSuccess frames s = Inr s' \<longrightarrow>
            (\<exists>q th cb'. EnqueueFrames_loop frames (timestamp_helper s) = Inr (q, th) \<and>
               list_all2 retimed frames q \<and> decode_cb s = Some cb' \<and>
               s' = s\<lparr>key_added_while_decode_pending := False,
                      pending_buffer_to_decode := None, timestamp_helper := th,
                      state := kIdle, decode_cb := None,
                      effects := effects s @ [DecodeCB_Run cb' kOk (Some (hd q))],
                      queued_audio_frames := tl q\<rparr>)"
    using DeliverFrame_Success[of k frames s s'] by blast
  show ?thesis by (intro conjI 1 2 3 4 5 6 7)
qed

theorem output_queue_fifo_witness:
  "\<exists>s0 s s1 s2 q.
      run example_IsValidConfig (butlast example_calls) (constructor (Some 0)) = Inr s0 \<and>
      step example_IsValidConfig (Call_Decode (Some example_buffer) (Some 2)) s0 = Inr s \<and>
      submitted s0 < submitted s \<and> queued_audio_frames s0 = [] \<and>
      run example_IsValidConfig example_calls (constructor (Some 0)) = Inr s \<and>
      state s = kPendingDecode \<and> queued_audio_frames s = [] \<and> reset_cb s = None \<and>
      DeliverFrame 4 kSuccess
        [example_frame, example_frame\<lparr>ab_frame_count := 200\<rparr>,
         example_frame\<lparr>ab_frame_count := 300\<rparr>] s = Inr s1 \<and>
      step example_IsValidConfig example_burst s = Inr s1 \<and>
      run example_IsValidConfig (example_calls @ [example_burst]) (constructor (Some 0))
        = Inr s1 \<and>
      map ab_frame_count q = [100, 200, 300] \<and>
      effects s1 = effects s @ [DecodeCB_Run 2 kOk (Some (hd q))] \<and>
      queued_audio_frames s1 = tl q \<and>
      state s1 = kIdle \<and> length [3, 4 :: nat] \<le> length (queued_audio_frames s1) \<and>
      run example_IsValidConfig (drain_calls [3, 4]) s1 = Inr s2 \<and>
      effects s2 = effects s1 @
        [DecodeCB_Run 3 kOk (Some (q ! 1)), DecodeCB_Run 4 kOk (Some (q ! 2))] \<and>
      queued_audio_frames s2 = [] \<and>
      Decode (Some example_buffer) (Some 3) s1 = Inl DCHECK_failure \<and>
      DeliverFrame 0 kNeedMoreData [] (s\<lparr>queued_audio_frames := [example_frame]\<rparr>)
        = Inl DCHECK_failure \<and>
      map_sum id state (DeliverFrame 0 kNeedMoreData [] s) = Inr kIdle"
proof -
  let ?F = "[example_frame, example_frame\<lparr>ab_frame_count := 200\<rparr>,
             example_frame\<lparr>ab_frame_count := 300\<rparr>]"
  obtain s0 where s0:
    "run example_IsValidConfig (butlast example_calls) (constructor (Some 0)) = Inr s0"
    "submitted s0 = 0"
    by (auto simp: example_defs method_defs Let_def submitted_def)
  obtain s where s:
    "step example_IsValidConfig (Call_Decode (Some example_buffer) (Some 2)) s0 = Inr s"
    "submitted s = 1" "state s = kPendingDecode"
    "map_sum id state (DeliverFrame 0 kNeedMoreData [] s) = Inr kIdle"
    "reset_cb s = None" "decode_cb s = Some 2" "weak_factory s = 0"
    using s0(1) by (auto simp: example_defs method_defs Let_def submitted_def)
  have "\<forall>c s'. step example_IsValidConfig c s0 = Inr s' \<and> submitted s0 < submitted s' \<longrightarrow>
            queued_audio_frames s0 = [] \<and> queued_audio_frames s' = []"
    using output_queue_fifo[OF s0(1), of 0 example_buffer "[]" 0 kSuccess "[]" 0 "[]" s0]
    by (rule conjunct1)
  then have "step example_IsValidConfig (Call_Decode (Some example_buffer) (Some 2)) s0 = Inr s
             \<and> submitted s0 < submitted s \<longrightarrow>
            queued_audio_frames s0 = [] \<and> queued_audio_frames s = []"
    by blast
  then have q0: "queued_audio_frames s0 = []" "queued_audio_frames s = []"
    using s s0(2) by simp_all
  have r: "run example_IsValidConfig example_calls (constructor (Some 0)) = Inr s"
    using run_snoc_Inr[OF s0(1) s(1)] by (simp add: example_calls_def)
  obtain s1 where s1: "DeliverFrame 4 kSuccess ?F s = Inr s1"
    "state s1 = kIdle" "length (queued_audio_frames s1) = 2"
    using s0(1) s(1)
    by (auto simp: example_defs method_defs Let_def)
  have st1: "step example_IsValidConfig example_burst s = Inr s1"
    using s1(1) s(7) by (simp add: example_burst_def via_weak_ptr_def)
  have r1: "run example_IsValidConfig (example_calls @ [example_burst]) (constructor (Some 0))
      = Inr s1"
    using r st1 by (rule run_snoc_Inr)
  note t = output_queue_fifo[OF r, of 0 example_buffer "[]" 0 kNeedMoreData "[]" 4 ?F s1]
  from t s(5) s1(1) obtain q th where q:
    "list_all2 retimed ?F q"
    "s1 = s\<lparr>key_added_while_decode_pending := False,
                      pending_buffer_to_decode := None, timestamp_helper := th,
                      state := kIdle, decode_cb := None,
                      effects := effects s @ [DecodeCB_Run 2 kOk (Some (hd q))],
                      queued_audio_frames := tl q\<rparr>"
    using s(6) by auto
  have c: "map ab_frame_count q = [100, 200, 300]"
    using retimed_frame_count[OF q(1)] by (simp add: example_frame_def)
  have e1: "effects s1 = effects s @ [DecodeCB_Run 2 kOk (Some (hd q))]"
    "queued_audio_frames s1 = tl q"
    by (subst q(2), simp)+
  have u: "DeliverFrame 0 kNeedMoreData [] (s\<lparr>queued_audio_frames := [example_frame]\<rparr>)
        = Inl DCHECK_failure"
    using t by simp
  note t1 = output_queue_fifo[OF r1, of 3 example_buffer "[3, 4]" 0 kNeedMoreData "[]" 0 "[]" s1]
  have l: "length [3, 4 :: nat] \<le> length (queued_audio_frames s1)" using s1(3) by simp
  have ne: "queued_audio_frames s1 \<noteq> []" using s1(3) by auto
  have b: "Decode (Some example_buffer) (Some 3) s1 = Inl DCHECK_failure"
    using t1 s1(2) ne by simp
  have "\<exists>f1 f2 f3. q = [f1, f2, f3]" using c by (auto simp: map_eq_Cons_conv)
  then have tlq: "tl q = [q ! 1, q ! 2]" by auto
  define s2 where "s2 = s1\<lparr>effects := effects s1 @
                       map2 (\<lambda>cb f. DecodeCB_Run cb kOk (Some f)) [3, 4] (queued_audio_frames s1),
                     queued_audio_frames := drop (length [3, 4 :: nat]) (queued_audio_frames s1)\<rparr>"
  have d: "run example_IsValidConfig (drain_calls [3, 4]) s1 = Inr s2"
    using t1 s1(2) l unfolding s2_def by simp
  have e2: "effects s2 = effects s1 @
        [DecodeCB_Run 3 kOk (Some (q ! 1)), DecodeCB_Run 4 kOk (Some (q ! 2))]"
    "queued_audio_frames s2 = []"
    unfolding s2_def using e1(2) tlq by simp_all
  show ?thesis
    apply (rule exI[of _ s0], rule exI[of _ s], rule exI[of _ s1], rule exI[of _ s2],
        rule exI[of _ q])
    using s0(1) s(1) s0(2) s(2,3,4,5) q0 r s1(1,2) st1 r1 c e1 l d e2 b u
    apply simp
    done
qed

subsection \<open>The reconstructed timestamps\<close>

lemma frames_before_0: "frames_before frames 0 = 0"
  by (simp add: frames_before_def)

lemma frames_before_Cons:
  "frames_before (f # fs) (Suc i) = ab_frame_count f + frames_before fs i"
  by (simp add: frames_before_def)

lemma frames_before_Suc:
  "i < length frames \<Longrightarrow>
   frames_before frames (Suc i) = frames_before frames i + ab_frame_count (frames ! i)"
  by (simp add: frames_before_def take_Suc_conv_app_nth)

lemma frames_before_all:
  "frames_before frames (length frames) = sum_list (map ab_frame_count frames)"
  by (simp add: frames_before_def)

lemma AddFrames_AddFrames: "AddFrames (AddFrames h a) b = AddFrames h (a + b)"
  by (simp add: AddFrames_def add.assoc)

lemma AddFrames_0: "AddFrames h 0 = h"
  by (simp add: AddFrames_def)

lemma GetFrameDuration_AddFrames: "GetFrameDuration (AddFrames h a) n = GetFrameDuration h n"
  by (simp add: GetFrameDuration_def AddFrames_def)

lemma EnqueueFrames_loop_frames:
  "EnqueueFrames_loop frames th = Inr (q, th') \<Longrightarrow>
   \<forall>f \<in> set frames. \<not> ab_end_of_stream f \<and> 0 < ab_frame_count f"
  by (induction frames arbitrary: th q)
     (auto simp: Let_def split: if_split_asm option.splits sum.splits)

lemma EnqueueFrames_loop_nth:
  "EnqueueFrames_loop frames (Some h) = Inr (q, th') \<Longrightarrow>
   length q = length frames \<and>
   th' = Some (AddFrames h (sum_list (map ab_frame_count frames))) \<and>
   (\<forall>i < length frames.
      q ! i = (frames ! i)
        \<lparr>ab_timestamp := GetTimestamp (AddFrames h (frames_before frames i)),
         ab_duration := GetFrameDuration h (ab_frame_count (frames ! i))\<rparr>)"
proof (induction frames arbitrary: h q)
  case Nil
  then show ?case by (simp add: AddFrames_0)
next
  case (Cons f fs)
  let ?h1 = "AddFrames h (ab_frame_count f)"
  let ?f1 = "f\<lparr>ab_timestamp := GetTimestamp h,
                ab_duration := GetFrameDuration h (ab_frame_count f)\<rparr>"
  from Cons.prems obtain q1 where q1: "EnqueueFrames_loop fs (Some ?h1) = Inr (q1, th')"
    "q = ?f1 # q1"
    by (auto simp: Let_def split: if_split_asm sum.splits)
  note IH = Cons.IH[OF q1(1)]
  have len: "length q = length (f # fs)" using IH q1(2) by simp
  have th: "th' = Some (AddFrames h (sum_list (map ab_frame_count (f # fs))))"
    using IH by (simp add: AddFrames_AddFrames)
  have nth: "q ! i = ((f # fs) ! i)
        \<lparr>ab_timestamp := GetTimestamp (AddFrames h (frames_before (f # fs) i)),
         ab_duration := GetFrameDuration h (ab_frame_count ((f # fs) ! i))\<rparr>"
    if "i < length (f # fs)" for i
  proof (cases i)
    case 0
    then show ?thesis using q1(2) by (simp add: frames_before_0 AddFrames_0)
  next
    case (Suc j)
    then have "j < length fs" using that by simp
    then show ?thesis using IH Suc q1(2)
      by (simp add: frames_before_Cons AddFrames_AddFrames GetFrameDuration_AddFrames)
  qed
  show ?case using len th nth by blast
qed

lemma EnqueueFrames_loop_append:
  "EnqueueFrames_loop (xs @ ys) th =
     (case EnqueueFrames_loop xs th of
        Inl e \<Rightarrow> Inl e
      | Inr (q1, th1) \<Rightarrow>
          (case EnqueueFrames_loop ys th1 of
             Inl e \<Rightarrow> Inl e
           | Inr (q2, th2) \<Rightarrow> Inr (q1 @ q2, th2)))"
  by (induction xs arbitrary: th)
     (auto simp: Let_def split: sum.splits option.splits)

lemma EnqueueFrames_loop_ignores_timestamps:
  "EnqueueFrames_loop (map (\<lambda>f. f\<lparr>ab_timestamp := t0, ab_duration := d0\<rparr>) frames) th =
   EnqueueFrames_loop frames th"
  by (induction frames arbitrary: th) (auto simp: Let_def split: option.splits)

lemma GetTimestamp_seeded:
  "ath_base_timestamp h = Some base \<Longrightarrow>
   GetTimestamp (AddFrames h n) =
     Some (base + of_int (ath_frame_count h + n) / of_int (ath_samples_per_second h))"
  by (simp add: GetTimestamp_def AddFrames_def)

lemma Decode_seeds:
  assumes "state s = kIdle" "decode_cb s = None" "queued_audio_frames s = []"
    "timestamp_helper s = Some h" "decryptor s \<noteq> None"
  shows "\<exists>s1. Decode (Some b) (Some cb) s = Inr s1 \<and>
           timestamp_helper s1 =
             Some (if ath_base_timestamp h = kNoTimestamp \<and> \<not> db_end_of_stream b
                   then SetBaseTimestamp (db_timestamp b) h else h)"
proof (cases "ath_base_timestamp h = kNoTimestamp")
  case True
  then show ?thesis using assms
    by (cases "db_end_of_stream b")
       (auto simp: Decode_def DecodePendingBuffer_def Let_def emit_def)
next
  case False
  then show ?thesis using assms
    by (auto simp: Decode_def DecodePendingBuffer_def Let_def emit_def)
qed

lemma GetTimestamp_SetBaseTimestamp: "GetTimestamp (SetBaseTimestamp t h) = t"
  by (cases t) (simp_all add: GetTimestamp_def SetBaseTimestamp_def)

lemma EnqueueFrames_ignores_timestamps:
  "EnqueueFrames (map (\<lambda>f. f\<lparr>ab_timestamp := t0, ab_duration := d0\<rparr>) frames) s =
   EnqueueFrames frames s"
  by (simp add: EnqueueFrames_def EnqueueFrames_loop_ignores_timestamps)

lemma EnqueueFrames_loop_None:
  "EnqueueFrames_loop frames None = Inr (q, th') \<Longrightarrow> th' = None"
  by (cases frames) (auto split: if_split_asm)

lemma EnqueueFrames_loop_rate:
  assumes "EnqueueFrames_loop frames th = Inr (q, th')" "th' = Some h'"
  shows "\<exists>h. th = Some h \<and> ath_samples_per_second h' = ath_samples_per_second h
           \<and> ath_base_timestamp h' = ath_base_timestamp h"
proof (cases th)
  case None
  then show ?thesis using assms EnqueueFrames_loop_None by auto
next
  case (Some h)
  then show ?thesis using EnqueueFrames_loop_nth[of frames h q th'] assms
    by (simp add: AddFrames_def)
qed

lemmas output_inv_defs = output_inv_def emit_def

lemma list_all_tl: "list_all P xs \<Longrightarrow> list_all P (tl xs)"
  by (cases xs) simp_all

lemma constructor_output_inv: "output_inv (constructor r)"
  by (simp add: output_inv_def constructor_def)

lemma Initialize_output_inv:
  "Initialize V cfg cb0 s = Inr s' \<Longrightarrow> output_inv s \<Longrightarrow> output_inv s'"
  by (auto simp: Initialize_def Let_def Inr_simps output_inv_defs
        split: if_split_asm option.splits)

lemma Decode_output_inv:
  "Decode buffer cbo s = Inr s' \<Longrightarrow> output_inv s \<Longrightarrow> output_inv s'"
  by (auto simp: Decode_def Let_def Inr_simps output_inv_defs SetBaseTimestamp_def list_all_tl
        split: if_split_asm option.splits)

lemma Reset_output_inv:
  "Reset closure s = Inr s' \<Longrightarrow> output_inv s \<Longrightarrow> output_inv s'"
  by (auto simp: Reset_def Let_def Inr_simps output_inv_defs SetBaseTimestamp_def
        split: if_split_asm option.splits)

lemma Stop_output_inv:
  "Stop closure s = Inr s' \<Longrightarrow> output_inv s \<Longrightarrow> output_inv s'"
  by (auto simp: Stop_result output_inv_def)

lemma SetDecryptor_output_inv:
  "SetDecryptor d s = Inr s' \<Longrightarrow> output_inv s \<Longrightarrow> output_inv s'"
  by (auto simp: SetDecryptor_def Let_def Inr_simps output_inv_defs
        split: if_split_asm option.splits)

lemma FinishInitialization_output_inv:
  "FinishInitialization ok s = Inr s' \<Longrightarrow> output_inv s \<Longrightarrow> output_inv s'"
  by (auto simp: FinishInitialization_def UpdateDecoderConfig_def Let_def Inr_simps
        output_inv_defs new_AudioTimestampHelper_def split: if_split_asm option.splits)

lemma DeliverFrame_output_inv:
  "DeliverFrame n st frames s = Inr s' \<Longrightarrow> output_inv s \<Longrightarrow> output_inv s'"
  by (auto simp: DeliverFrame_def Let_def Inr_simps output_inv_defs SetBaseTimestamp_def
        list_all_tl dest: EnqueueFrames_loop_out EnqueueFrames_loop_rate split: if_split_asm option.splits)

lemma OnKeyAdded_output_inv:
  "OnKeyAdded s = Inr s' \<Longrightarrow> output_inv s \<Longrightarrow> output_inv s'"
  by (auto simp: OnKeyAdded_def Let_def Inr_simps output_inv_defs
        split: if_split_asm option.splits)

lemma step_output_inv:
  assumes "step V c s = Inr s'" "output_inv s"
  shows "output_inv s'"
proof (cases c)
  case (Call_Initialize cfg cb0)
  with assms(1) have "Initialize V cfg cb0 s = Inr s'" by simp
  then show ?thesis using assms(2) by (rule Initialize_output_inv)
next
  case (Call_Decode buffer cbo)
  with assms(1) have "Decode buffer cbo s = Inr s'" by simp
  then show ?thesis using assms(2) by (rule Decode_output_inv)
next
  case Call_GetDecodeOutput
  with assms(1) have "s' = s\<lparr>queued_audio_frames := tl (queued_audio_frames s)\<rparr>"
    by (simp add: snd_GetDecodeOutput)
  then show ?thesis using assms(2) by (simp add: output_inv_def list_all_tl)
next
  case (Call_Reset closure)
  with assms(1) have "Reset closure s = Inr s'" by simp
  then show ?thesis using assms(2) by (rule Reset_output_inv)
next
  case (Call_Stop closure)
  with assms(1) have "Stop closure s = Inr s'" by simp
  then show ?thesis using assms(2) by (rule Stop_output_inv)
next
  case (Run_SetDecryptor w d)
  with assms(1) have "via_weak_ptr w (SetDecryptor d) s = Inr s'" by simp
  then show ?thesis using assms(2)
    by (cases rule: via_weak_ptr_cases) (auto intro: SetDecryptor_output_inv)
next
  case (Run_FinishInitialization w ok)
  with assms(1) have "via_weak_ptr w (FinishInitialization ok) s = Inr s'" by simp
  then show ?thesis using assms(2)
    by (cases rule: via_weak_ptr_cases) (auto intro: FinishInitialization_output_inv)
next
  case (Run_DeliverFrame w n st frames)
  with assms(1) have "via_weak_ptr w (DeliverFrame n st frames) s = Inr s'" by simp
  then show ?thesis using assms(2)
    by (cases rule: via_weak_ptr_cases) (auto intro: DeliverFrame_output_inv)
next
  case (Run_OnKeyAdded w)
  with assms(1) have "via_weak_ptr w OnKeyAdded s = Inr s'" by simp
  then show ?thesis using assms(2)
    by (cases rule: via_weak_ptr_cases) (auto intro: OnKeyAdded_output_inv)
qed

lemma run_output_inv:
  "run V cs s = Inr s' \<Longrightarrow> output_inv s \<Longrightarrow> output_inv s'"
  by (induction cs arbitrary: s)
     (auto simp: run_Cons_Inr simp del: run.simps(2) dest: step_output_inv)

text \<open>What a step of a decode sequence hands out.\<close>

lemma delivered_simps:
  "delivered [] = []"
  "delivered (es @ fs) = delivered es @ delivered fs"
  "delivered (e # es) = delivered_frame e @ delivered es"
  by (simp_all add: delivered_def)

lemma hd_tl_non_eos:
  "list_all (\<lambda>f. \<not> ab_end_of_stream f) q \<Longrightarrow> q \<noteq> [] \<Longrightarrow>
   \<not> ab_end_of_stream (hd q) \<and> hd q # tl q = q"
  by (cases q) simp_all

lemma Decode_handed_out:
  assumes "Decode buffer cbo s = Inr s'" "output_inv s" "timestamp_helper s = Some h"
    "ath_base_timestamp h \<noteq> None"
  shows "weak_factory s' = weak_factory s \<and> reset_cb s' = reset_cb s \<and>
         timestamp_helper s' = timestamp_helper s \<and> handed_out s' = handed_out s"
  using assms
  by (auto simp: Decode_def Let_def Inr_simps handed_out_def delivered_simps emit_def
        output_inv_def CreateEOSBuffer_def
        dest: hd_tl_non_eos split: if_split_asm option.splits)

lemma OnKeyAdded_handed_out:
  assumes "OnKeyAdded s = Inr s'"
  shows "weak_factory s' = weak_factory s \<and> reset_cb s' = reset_cb s \<and>
         timestamp_helper s' = timestamp_helper s \<and> handed_out s' = handed_out s"
  using assms
  by (auto simp: OnKeyAdded_def Let_def Inr_simps handed_out_def delivered_simps emit_def
        split: if_split_asm option.splits)

lemma EnqueueFrames_loop_hd:
  "EnqueueFrames_loop frames th = Inr (q, th') \<Longrightarrow> frames \<noteq> [] \<Longrightarrow>
   \<not> ab_end_of_stream (hd q) \<and> hd q # tl q = q"
  using EnqueueFrames_loop_out[of frames th q th'] EnqueueFrames_loop_length[of frames th q th']
  by (cases q) auto

lemma DeliverFrame_handed_out:
  assumes "DeliverFrame n st frames s = Inr s'" "reset_cb s = None"
  shows "weak_factory s' = weak_factory s \<and> reset_cb s' = None \<and>
         (\<exists>q. EnqueueFrames_loop (if st = kSuccess then frames else []) (timestamp_helper s)
                 = Inr (q, timestamp_helper s') \<and>
               handed_out s' = handed_out s @ q)"
  using assms
  by (cases st)
     (auto simp: DeliverFrame_def Let_def Inr_simps handed_out_def delivered_simps emit_def
        CreateEOSBuffer_def
        dest: EnqueueFrames_loop_hd split: if_split_asm option.splits)

lemma step_handed_out:
  assumes "step V c s = Inr s'" "decoding_call c" "output_inv s" "reset_cb s = None"
    "timestamp_helper s = Some h" "ath_base_timestamp h \<noteq> None"
  shows "weak_factory s' = weak_factory s \<and> reset_cb s' = None \<and>
         (\<exists>q. EnqueueFrames_loop (response_frames (weak_factory s) c) (Some h)
                 = Inr (q, timestamp_helper s') \<and>
               handed_out s' = handed_out s @ q)"
proof (cases c)
  case (Call_Decode buffer cbo)
  with assms(1) have "Decode buffer cbo s = Inr s'" by simp
  from Decode_handed_out[OF this assms(3,5,6)] show ?thesis
    using Call_Decode assms(4,5) by simp
next
  case (Run_DeliverFrame w n st frames)
  with assms(1) have "via_weak_ptr w (DeliverFrame n st frames) s = Inr s'" by simp
  then show ?thesis
  proof (cases rule: via_weak_ptr_cases)
    case 1
    from DeliverFrame_handed_out[OF 1(2) assms(4)] show ?thesis
      using Run_DeliverFrame 1(1) assms(5) by auto
  next
    case 2
    then show ?thesis using Run_DeliverFrame assms(4,5) by simp
  qed
next
  case (Run_OnKeyAdded w)
  with assms(1) have "via_weak_ptr w OnKeyAdded s = Inr s'" by simp
  then show ?thesis
  proof (cases rule: via_weak_ptr_cases)
    case 1
    from OnKeyAdded_handed_out[OF 1(2)] show ?thesis
      using Run_OnKeyAdded assms(4,5) by simp
  next
    case 2
    then show ?thesis using Run_OnKeyAdded assms(4,5) by simp
  qed
qed (use assms(2) in simp_all)

lemma success_frames_simps:
  "success_frames g [] = []"
  "success_frames g (c # cs) = response_frames g c @ success_frames g cs"
  "success_frames g (cs @ ds) = success_frames g cs @ success_frames g ds"
  by (simp_all add: success_frames_def)

lemma run_handed_out:
  assumes "run V cs s = Inr s'" "list_all decoding_call cs" "output_inv s" "reset_cb s = None"
    "timestamp_helper s = Some h" "ath_base_timestamp h \<noteq> None"
  shows "weak_factory s' = weak_factory s \<and> reset_cb s' = None \<and>
         (\<exists>q. EnqueueFrames_loop (success_frames (weak_factory s) cs) (Some h)
                 = Inr (q, timestamp_helper s') \<and>
               handed_out s' = handed_out s @ q)"
  using assms
proof (induction cs arbitrary: s h)
  case Nil
  then show ?case by (simp add: success_frames_simps)
next
  case (Cons c cs)
  from Cons.prems(1) obtain s1 where s1: "step V c s = Inr s1" "run V cs s1 = Inr s'"
    by (auto simp: run_Cons_Inr simp del: run.simps(2))
  have dc: "decoding_call c" "list_all decoding_call cs" using Cons.prems(2) by simp_all
  from step_handed_out[OF s1(1) dc(1) Cons.prems(3-6)]
  obtain q1 where q1: "weak_factory s1 = weak_factory s" "reset_cb s1 = None"
    "EnqueueFrames_loop (response_frames (weak_factory s) c) (Some h)
       = Inr (q1, timestamp_helper s1)"
    "handed_out s1 = handed_out s @ q1"
    by blast
  have "timestamp_helper s1 \<noteq> None" using EnqueueFrames_loop_helper[OF q1(3)] by simp
  then obtain h1 where h1: "timestamp_helper s1 = Some h1" by auto
  have b1: "ath_base_timestamp h1 \<noteq> None"
    using EnqueueFrames_loop_rate[OF q1(3) h1] Cons.prems(6) by auto
  have o1: "output_inv s1" using s1(1) Cons.prems(3) by (rule step_output_inv)
  from Cons.IH[OF s1(2) dc(2) o1 q1(2) h1 b1]
  obtain q2 where q2: "weak_factory s' = weak_factory s1" "reset_cb s' = None"
    "EnqueueFrames_loop (success_frames (weak_factory s1) cs) (Some h1)
       = Inr (q2, timestamp_helper s')"
    "handed_out s' = handed_out s1 @ q2"
    by blast
  have "EnqueueFrames_loop (success_frames (weak_factory s) (c # cs)) (Some h)
       = Inr (q1 @ q2, timestamp_helper s')"
    using q1(3) q2(3) h1 q1(1)
    by (simp add: success_frames_simps EnqueueFrames_loop_append)
  moreover have "handed_out s' = handed_out s @ q1 @ q2" using q1(4) q2(4) by simp
  ultimately show ?case using q1(1) q2(1,2) by auto
qed

lemma reconstructed_gap_free:
  assumes "EnqueueFrames_loop frames (Some h) = Inr (out, th')"
    "ath_base_timestamp h = Some base" "Suc i < length out"
  shows "\<exists>t d. ab_timestamp (out ! i) = Some t \<and> ab_duration (out ! i) = Some d \<and>
           ab_timestamp (out ! Suc i) = Some (t + d) \<and>
           (0 < ath_samples_per_second h \<longrightarrow> 0 < d)"
proof -
  note n = EnqueueFrames_loop_nth[OF assms(1)]
  have len: "length out = length frames" using n by simp
  have i: "i < length frames" "Suc i < length frames" using assms(3) len by simp_all
  let ?r = "of_int (ath_samples_per_second h) :: rat"
  let ?t = "base + of_int (ath_frame_count h + frames_before frames i) / ?r"
  let ?d = "of_int (ab_frame_count (frames ! i)) / ?r"
  have pos: "0 < ab_frame_count (frames ! i)"
    using EnqueueFrames_loop_frames[OF assms(1)] i(1) by (simp add: nth_mem[OF i(1)])
  have 1: "ab_timestamp (out ! i) = Some ?t"
    using n i(1) by (simp add: GetTimestamp_seeded[OF assms(2)])
  have 2: "ab_duration (out ! i) = Some ?d"
    using n i(1) by (simp add: GetFrameDuration_def)
  have 3: "0 < ath_samples_per_second h \<longrightarrow> 0 < ?d" using pos by simp
  have "ab_timestamp (out ! Suc i) =
      Some (base + of_int (ath_frame_count h + frames_before frames (Suc i)) / ?r)"
    using n i(2) by (simp add: GetTimestamp_seeded[OF assms(2)])
  also have "\<dots> = Some (?t + ?d)"
    by (simp add: frames_before_Suc[OF i(1)] add_divide_distrib)
  finally have 4: "ab_timestamp (out ! Suc i) = Some (?t + ?d)" .
  show ?thesis using 1 2 3 4 by blast
qed

lemma reports_supplied_rate:
  assumes "run V cs (constructor r) = Inr s"
    "state s = kIdle \<or> state s = kPendingDecode \<or> state s = kWaitingForKey
       \<or> state s = kDecodeFinished"
  shows "samples_per_second s =
           cfg_samples_per_second (supplied_config V cs default_AudioDecoderConfig)"
proof -
  have ci: "config_inv s" using assms(1) constructor_config_inv by (rule run_config_inv)
  have sc: "same_layout_and_rate (config s) (supplied_config V cs default_AudioDecoderConfig)"
    using run_config[OF assms(1)] by (simp add: constructor_def)
  from assms(2) show ?thesis using ci sc
    by (elim disjE) (simp_all add: config_inv_def reports_config_def same_layout_and_rate_def)
qed

lemma DeliverFrame_ignores_timestamps:
  "DeliverFrame n st (map (\<lambda>f. f\<lparr>ab_timestamp := t, ab_duration := d\<rparr>) frames) s =
   DeliverFrame n st frames s"
  by (simp add: DeliverFrame_def Let_def EnqueueFrames_ignores_timestamps)

lemma step_ignores_timestamps: "step V (retime_call t d c) s = step V c s"
  by (cases c) (simp_all add: via_weak_ptr_def DeliverFrame_ignores_timestamps)

lemma run_ignores_timestamps: "run V (map (retime_call t d) cs) s = run V cs s"
  by (induction cs arbitrary: s) (auto simp: step_ignores_timestamps split: sum.splits)

text \<open>
  Claim C4. A \<open>kSuccess\<close> response delivered to a reachable state with no reset pending
  hands out its frames in arrival order, each with the running timestamp of the helper
  at its turn (the helper advanced by the frames counted before it) and the duration
  \<open>frame_count / sample_rate\<close>, and leaves the helper advanced by all the frames.
  Further, take a reachable state whose timestamp helper is seeded (the base timestamp is
  set) and where no reset is pending, and from it any sequence of \<open>Decode\<close> calls,
  decryptor responses and key arrivals that the decoder accepts. The frames handed out
  (run through the decode callback, or queued for the next \<open>Decode\<close> calls) grow by
  exactly the frames of the \<open>kSuccess\<close> responses that arrived, in arrival order, each
  with its timestamp and duration replaced: the timestamp is the running timestamp (the
  base plus the frames counted so far over the sample rate), the duration is
  \<open>frame_count / sample_rate\<close>, and the helper ends advanced by all the frames. The
  sample rate is the one the decoder reports, which is that of the configuration the
  pipeline supplied. Each frame's timestamp plus its duration is the timestamp of the
  next frame, within a response and from one response to the next, and with a positive
  sample rate the duration is positive: the timestamps increase without gaps. The
  timestamps and durations the decryptor attached play no part. \<open>Decode\<close> seeds an
  unseeded base with the timestamp of a buffer that is not end-of-stream, from which
  the running timestamp then starts, and leaves a seeded helper as it is.
\<close>

theorem delivered_timestamps_reconstructed:
  assumes "run V cs0 (constructor r) = Inr s0" "timestamp_helper s0 = Some h0"
  shows "ath_samples_per_second h0 = samples_per_second s0
       \<and> (state s0 = kIdle \<or> state s0 = kPendingDecode \<or> state s0 = kWaitingForKey
            \<or> state s0 = kDecodeFinished \<longrightarrow>
          samples_per_second s0 =
            cfg_samples_per_second (supplied_config V cs0 default_AudioDecoderConfig))
       \<and> (state s0 = kIdle \<and> queued_audio_frames s0 = [] \<longrightarrow>
            (\<exists>s1. Decode (Some b) (Some cb) s0 = Inr s1 \<and>
               timestamp_helper s1 =
                 Some (if ath_base_timestamp h0 = kNoTimestamp \<and> \<not> db_end_of_stream b
                       then SetBaseTimestamp (db_timestamp b) h0 else h0)))
       \<and> GetTimestamp (SetBaseTimestamp (db_timestamp b) h0) = db_timestamp b
       \<and> run V (map (retime_call t0 d0) cs) s0 = run V cs s0
       \<and> (ath_base_timestamp h0 = Some base \<and> reset_cb s0 = None \<and>
          list_all decoding_call cs \<and> run V cs s0 = Inr s \<longrightarrow>
            (\<exists>out. handed_out s = handed_out s0 @ out
               \<and> length out = length (success_frames (weak_factory s0) cs)
               \<and> timestamp_helper s =
                   Some (AddFrames h0
                     (sum_list (map ab_frame_count (success_frames (weak_factory s0) cs))))
               \<and> (\<forall>i < length out.
                    out ! i = (success_frames (weak_factory s0) cs ! i)
                      \<lparr>ab_timestamp :=
                         Some (base +
                           of_int (ath_frame_count h0 +
                                   frames_before (success_frames (weak_factory s0) cs) i)
                           / of_int (samples_per_second s0)),
                       ab_duration :=
                         Some (of_int (ab_frame_count (success_frames (weak_factory s0) cs ! i))
                               / of_int (samples_per_second s0))\<rparr>)
               \<and> (\<forall>i. Suc i < length out \<longrightarrow>
                    (\<exists>t d. ab_timestamp (out ! i) = Some t \<and> ab_duration (out ! i) = Some d \<and>
                       ab_timestamp (out ! Suc i) = Some (t + d) \<and>
                       (0 < samples_per_second s0 \<longrightarrow> 0 < d)))))
       \<and> (reset_cb s0 = None \<and> DeliverFrame n kSuccess frames s0 = Inr s' \<longrightarrow>
            (\<exists>out. handed_out s' = handed_out s0 @ out
               \<and> length out = length frames
               \<and> (\<forall>i < length frames.
                    out ! i = (frames ! i)
                      \<lparr>ab_timestamp := GetTimestamp (AddFrames h0 (frames_before frames i)),
                       ab_duration :=
                         Some (of_int (ab_frame_count (frames ! i))
                               / of_int (samples_per_second s0))\<rparr>)
               \<and> timestamp_helper s' =
                   Some (AddFrames h0 (sum_list (map ab_frame_count frames)))))"
proof -
  have fi: "fields_inv s0" using assms(1) by (rule reachable_fields_inv)
  have oi: "output_inv s0" using assms(1) constructor_output_inv by (rule run_output_inv)
  have 1: "ath_samples_per_second h0 = samples_per_second s0"
    using oi assms(2) by (simp add: output_inv_def)
  have 2: "state s0 = kIdle \<or> state s0 = kPendingDecode \<or> state s0 = kWaitingForKey
            \<or> state s0 = kDecodeFinished \<longrightarrow>
          samples_per_second s0 =
            cfg_samples_per_second (supplied_config V cs0 default_AudioDecoderConfig)"
    using reports_supplied_rate[OF assms(1)] by blast
  have 3: "state s0 = kIdle \<and> queued_audio_frames s0 = [] \<longrightarrow>
            (\<exists>s1. Decode (Some b) (Some cb) s0 = Inr s1 \<and>
               timestamp_helper s1 =
                 Some (if ath_base_timestamp h0 = kNoTimestamp \<and> \<not> db_end_of_stream b
                       then SetBaseTimestamp (db_timestamp b) h0 else h0))"
  proof (intro impI, elim conjE)
    assume a: "state s0 = kIdle" "queued_audio_frames s0 = []"
    have "decode_cb s0 = None" "decryptor s0 \<noteq> None"
      using fields_inv_idle[OF fi a(1)] by simp_all
    with a show "\<exists>s1. Decode (Some b) (Some cb) s0 = Inr s1 \<and>
               timestamp_helper s1 =
                 Some (if ath_base_timestamp h0 = kNoTimestamp \<and> \<not> db_end_of_stream b
                       then SetBaseTimestamp (db_timestamp b) h0 else h0)"
      using Decode_seeds[of s0 h0 b cb] assms(2) by simp
  qed
  have 4: "GetTimestamp (SetBaseTimestamp (db_timestamp b) h0) = db_timestamp b"
    by (rule GetTimestamp_SetBaseTimestamp)
  let ?raw = "success_frames (weak_factory s0) cs"
  have 5: "ath_base_timestamp h0 = Some base \<and> reset_cb s0 = None \<and>
          list_all decoding_call cs \<and> run V cs s0 = Inr s \<longrightarrow>
          (\<exists>out. handed_out s = handed_out s0 @ out
               \<and> length out = length ?raw
               \<and> timestamp_helper s =
                   Some (AddFrames h0 (sum_list (map ab_frame_count ?raw)))
               \<and> (\<forall>i < length out.
                    out ! i = (?raw ! i)
                      \<lparr>ab_timestamp :=
                         Some (base + of_int (ath_frame_count h0 + frames_before ?raw i)
                           / of_int (samples_per_second s0)),
                       ab_duration :=
                         Some (of_int (ab_frame_count (?raw ! i))
                               / of_int (samples_per_second s0))\<rparr>)
               \<and> (\<forall>i. Suc i < length out \<longrightarrow>
                    (\<exists>t d. ab_timestamp (out ! i) = Some t \<and> ab_duration (out ! i) = Some d \<and>
                       ab_timestamp (out ! Suc i) = Some (t + d) \<and>
                       (0 < samples_per_second s0 \<longrightarrow> 0 < d))))" (is "?A \<longrightarrow> ?C")
  proof (intro impI)
    assume "?A"
    then have a: "ath_base_timestamp h0 = Some base" "reset_cb s0 = None"
      "list_all decoding_call cs" "run V cs s0 = Inr s" by simp_all
    have "ath_base_timestamp h0 \<noteq> None" using a(1) by simp
    from run_handed_out[OF a(4,3) oi a(2) assms(2) this]
    obtain out where out: "EnqueueFrames_loop ?raw (Some h0) = Inr (out, timestamp_helper s)"
      "handed_out s = handed_out s0 @ out"
      by blast
    note n = EnqueueFrames_loop_nth[OF out(1)]
    have l: "length out = length ?raw" using n by simp
    have t: "timestamp_helper s = Some (AddFrames h0 (sum_list (map ab_frame_count ?raw)))"
      using n by simp
    have f: "\<forall>i < length out.
                    out ! i = (?raw ! i)
                      \<lparr>ab_timestamp :=
                         Some (base + of_int (ath_frame_count h0 + frames_before ?raw i)
                           / of_int (samples_per_second s0)),
                       ab_duration :=
                         Some (of_int (ab_frame_count (?raw ! i))
                               / of_int (samples_per_second s0))\<rparr>"
      using n l 1 by (simp add: GetTimestamp_seeded[OF a(1)] GetFrameDuration_def)
    have g: "\<forall>i. Suc i < length out \<longrightarrow>
                    (\<exists>t d. ab_timestamp (out ! i) = Some t \<and> ab_duration (out ! i) = Some d \<and>
                       ab_timestamp (out ! Suc i) = Some (t + d) \<and>
                       (0 < samples_per_second s0 \<longrightarrow> 0 < d))"
      using reconstructed_gap_free[OF out(1) a(1)] 1 by simp
    show ?C using out(2) l t f g by blast
  qed
  have 6: "run V (map (retime_call t0 d0) cs) s0 = run V cs s0"
    by (rule run_ignores_timestamps)
  have 7: "reset_cb s0 = None \<and> DeliverFrame n kSuccess frames s0 = Inr s' \<longrightarrow>
            (\<exists>out. handed_out s' = handed_out s0 @ out
               \<and> length out = length frames
               \<and> (\<forall>i < length frames.
                    out ! i = (frames ! i)
                      \<lparr>ab_timestamp := GetTimestamp (AddFrames h0 (frames_before frames i)),
                       ab_duration :=
                         Some (of_int (ab_frame_count (frames ! i))
                               / of_int (samples_per_second s0))\<rparr>)
               \<and> timestamp_helper s' =
                   Some (AddFrames h0 (sum_list (map ab_frame_count frames))))"
    (is "?A7 \<longrightarrow> ?C7")
  proof (intro impI)
    assume "?A7"
    then have a: "reset_cb s0 = None" "DeliverFrame n kSuccess frames s0 = Inr s'"
      by simp_all
    from DeliverFrame_handed_out[OF a(2,1)] obtain out where
      out: "EnqueueFrames_loop frames (Some h0) = Inr (out, timestamp_helper s')"
        "handed_out s' = handed_out s0 @ out"
      using assms(2) by auto
    note n = EnqueueFrames_loop_nth[OF out(1)]
    show "?C7" using out(2) n 1 by (auto simp: GetFrameDuration_def)
  qed
  show ?thesis by (intro conjI 1 2 3 4 5 6 7)
qed

theorem delivered_timestamps_reconstructed_witness:
  "\<exists>s0 h0 s1 s.
      run example_IsValidConfig (take 3 example_calls) (constructor (Some 0)) = Inr s1 \<and>
      state s1 = kIdle \<and> queued_audio_frames s1 = [] \<and>
      map_sum id timestamp_helper (Decode (Some example_buffer) (Some 2) s1) =
        Inr (Some \<lparr>ath_samples_per_second = 48000, ath_base_timestamp = Some 0,
                    ath_frame_count = 0\<rparr>) \<and>
      run example_IsValidConfig example_calls (constructor (Some 0)) = Inr s0 \<and>
      timestamp_helper s0 = Some h0 \<and> state s0 = kPendingDecode \<and>
      samples_per_second s0 = 48000 \<and>
      cfg_samples_per_second
        (supplied_config example_IsValidConfig example_calls default_AudioDecoderConfig) = 48000 \<and>
      ath_base_timestamp h0 = Some 0 \<and> reset_cb s0 = None \<and>
      list_all decoding_call example_decode_sequence \<and>
      run example_IsValidConfig example_decode_sequence s0 = Inr s \<and>
      success_frames (weak_factory s0) example_decode_sequence =
        [example_frame, example_frame, example_frame] \<and>
      ab_timestamp example_frame = Some 5 \<and> ab_duration example_frame = Some 1 \<and>
      handed_out s0 = [] \<and>
      handed_out s =
        [example_frame\<lparr>ab_timestamp := Some 0, ab_duration := Some (1 / 480)\<rparr>,
         example_frame\<lparr>ab_timestamp := Some (1 / 480), ab_duration := Some (1 / 480)\<rparr>,
         example_frame\<lparr>ab_timestamp := Some (1 / 240), ab_duration := Some (1 / 480)\<rparr>] \<and>
      delivered (effects s) = handed_out s \<and>
      timestamp_helper s = Some (AddFrames h0 300) \<and>
      (\<exists>s2 out. DeliverFrame 4 kSuccess [example_frame, example_frame] s0 = Inr s2 \<and>
         handed_out s2 = out \<and> length out = 2 \<and>
         ab_timestamp (out ! 1) = Some (1 / 480) \<and>
         ab_duration (out ! 1) = Some (1 / 480) \<and>
         timestamp_helper s2 = Some (AddFrames h0 200))"
proof -
  obtain s1 where s1:
    "run example_IsValidConfig (take 3 example_calls) (constructor (Some 0)) = Inr s1"
    "state s1 = kIdle" "queued_audio_frames s1 = []"
    "timestamp_helper s1 = Some (new_AudioTimestampHelper 48000)"
    by (auto simp: example_defs method_defs Let_def)
  obtain s0 h0 where s0:
    "run example_IsValidConfig example_calls (constructor (Some 0)) = Inr s0"
    "timestamp_helper s0 = Some h0" "ath_base_timestamp h0 = Some 0" "reset_cb s0 = None"
    "state s0 = kPendingDecode" "weak_factory s0 = 0" "handed_out s0 = []"
    "ath_frame_count h0 = 0" "ath_samples_per_second h0 = 48000"
    by (auto simp: example_defs method_defs Let_def handed_out_def delivered_simps)
  obtain s2 where s2: "DeliverFrame 4 kSuccess [example_frame, example_frame] s0 = Inr s2"
    using s0(1)
    by (auto simp: example_defs example_response_def method_defs Let_def)
  obtain s where s:
    "run example_IsValidConfig (example_calls @ example_decode_sequence) (constructor (Some 0))
       = Inr s"
    "queued_audio_frames s = []"
    by (auto simp: example_defs example_decode_sequence_def example_response_def method_defs
          Let_def)
  have r: "run example_IsValidConfig example_decode_sequence s0 = Inr s"
    using s(1) s0(1) by (simp add: run_append)
  have dc: "list_all decoding_call example_decode_sequence"
    by (simp add: example_decode_sequence_def example_response_def)
  have raw: "success_frames (weak_factory s0) example_decode_sequence =
        [example_frame, example_frame, example_frame]"
    using s0(6)
    by (simp add: success_frames_def example_decode_sequence_def example_response_def)
  have sup: "cfg_samples_per_second
        (supplied_config example_IsValidConfig example_calls default_AudioDecoderConfig) = 48000"
    by (simp add: example_defs)
  note t1 = delivered_timestamps_reconstructed[OF s1(1,4), of example_buffer 2 None None "[]" 0 s1
      0 "[]" s1]
  have d1: "map_sum id timestamp_helper (Decode (Some example_buffer) (Some 2) s1) =
        Inr (Some \<lparr>ath_samples_per_second = 48000, ath_base_timestamp = Some 0,
                    ath_frame_count = 0\<rparr>)"
    using t1 s1(2,3)
    by (auto simp: new_AudioTimestampHelper_def SetBaseTimestamp_def example_buffer_def)
  note t = delivered_timestamps_reconstructed[OF s0(1,2), of example_buffer 2 None None
      example_decode_sequence 0 s 4 "[example_frame, example_frame]" s2]
  have rate: "samples_per_second s0 = 48000" using t s0(5) sup by simp
  from t s0(3,4) dc r obtain out where out:
    "handed_out s = handed_out s0 @ out" "length out = 3"
    "timestamp_helper s = Some (AddFrames h0 300)"
    "\<forall>i < length out.
        out ! i = ([example_frame, example_frame, example_frame] ! i)
          \<lparr>ab_timestamp :=
             Some (0 + of_int (ath_frame_count h0 +
                       frames_before [example_frame, example_frame, example_frame] i)
                   / of_int (samples_per_second s0)),
           ab_duration :=
             Some (of_int (ab_frame_count ([example_frame, example_frame, example_frame] ! i))
                   / of_int (samples_per_second s0))\<rparr>"
    unfolding raw by (auto simp: example_frame_def)
  have o3: "out = [out ! 0, out ! 1, out ! 2]"
    using out(2) by (auto simp: list_eq_iff_nth_eq nth_Cons' less_Suc_eq numeral_3_eq_3 numeral_2_eq_2)
  have "out ! 0 = example_frame\<lparr>ab_timestamp := Some 0, ab_duration := Some (1 / 480)\<rparr>"
    "out ! 1 = example_frame\<lparr>ab_timestamp := Some (1 / 480), ab_duration := Some (1 / 480)\<rparr>"
    "out ! 2 = example_frame\<lparr>ab_timestamp := Some (1 / 240), ab_duration := Some (1 / 480)\<rparr>"
    using out(2,4) rate s0(8) by (simp_all add: frames_before_def example_frame_def)
  with o3 have o: "out =
        [example_frame\<lparr>ab_timestamp := Some 0, ab_duration := Some (1 / 480)\<rparr>,
         example_frame\<lparr>ab_timestamp := Some (1 / 480), ab_duration := Some (1 / 480)\<rparr>,
         example_frame\<lparr>ab_timestamp := Some (1 / 240), ab_duration := Some (1 / 480)\<rparr>]"
    by simp
  have h: "handed_out s = out" using out(1) s0(7) by simp
  have dl: "delivered (effects s) = handed_out s" using s(2) by (simp add: handed_out_def)
  have ef: "ab_timestamp example_frame = Some 5" "ab_duration example_frame = Some 1"
    by (simp_all add: example_frame_def)
  from t s0(4) s2 obtain out2 where out2:
    "handed_out s2 = handed_out s0 @ out2" "length out2 = 2"
    "\<forall>i < length [example_frame, example_frame].
        out2 ! i = ([example_frame, example_frame] ! i)
          \<lparr>ab_timestamp :=
             GetTimestamp (AddFrames h0 (frames_before [example_frame, example_frame] i)),
           ab_duration :=
             Some (of_int (ab_frame_count ([example_frame, example_frame] ! i))
                   / of_int (samples_per_second s0))\<rparr>"
    "timestamp_helper s2 = Some (AddFrames h0 200)"
    by (auto simp: example_frame_def)
  have p: "ab_timestamp (out2 ! 1) = Some (1 / 480)" "ab_duration (out2 ! 1) = Some (1 / 480)"
    using out2(3) rate s0(3,8,9)
    by (simp_all add: frames_before_def example_frame_def GetTimestamp_def AddFrames_def)
  have w2: "\<exists>s2 out. DeliverFrame 4 kSuccess [example_frame, example_frame] s0 = Inr s2 \<and>
         handed_out s2 = out \<and> length out = 2 \<and>
         ab_timestamp (out ! 1) = Some (1 / 480) \<and>
         ab_duration (out ! 1) = Some (1 / 480) \<and>
         timestamp_helper s2 = Some (AddFrames h0 200)"
    using s2 out2(1,2,4) s0(7) p by simp
  show ?thesis
    apply (rule exI[of _ s0], rule exI[of _ h0], rule exI[of _ s1], rule exI[of _ s])
    using s1(1-3) d1 s0(1-5,7) rate sup dc r raw ef h o dl out(3) w2
    apply simp
    done
qed

end
